theory Spec2Isabelle
  imports Complex_Main
begin

section \<open>Common definitions\<close>

text \<open>
  The engine is C++. A read or write outside an array, a signed overflow, a call
  through a null pointer and a call of the engine's \<open>ABORT\<close> macro do not return
  a value: each is an error of the model.
\<close>

datatype error =
  OutOfBounds | SignedOverflow | NullPointer | InvalidParameter | Aborted string

definition bindE :: "error + 'a \<Rightarrow> ('a \<Rightarrow> error + 'b) \<Rightarrow> error + 'b" where
  "bindE m f = (case m of Inl e \<Rightarrow> Inl e | Inr x \<Rightarrow> f x)"

text \<open>\<open>a[i]\<close> for a C array \<open>a\<close> and an \<open>int\<close> index.\<close>

definition rd :: "'a list \<Rightarrow> int \<Rightarrow> error + 'a" where
  "rd xs i = (if 0 \<le> i \<and> i < int (length xs) then Inr (xs ! nat i) else Inl OutOfBounds)"

text \<open>\<open>a[i] = v\<close>.\<close>

definition wr :: "'a list \<Rightarrow> int \<Rightarrow> 'a \<Rightarrow> error + 'a list" where
  "wr xs i v = (if 0 \<le> i \<and> i < int (length xs) then Inr (xs[nat i := v]) else Inl OutOfBounds)"

section \<open>Sound manager (Sound.cpp)\<close>

text \<open>
  The state of a sound instance as \<open>GetState()\<close> reports it, and what the calls
  of the manager leave in an instance: \<open>Play(loop)\<close> starts it, \<open>SetPitch\<close>,
  \<open>SetVolume\<close> and \<open>Apply3D\<close> store their arguments. A \<open>float\<close> is carried
  as a rational; no rounding is modelled.
\<close>

datatype SoundState = STOPPED | PLAYING | PAUSED

type_synonym Vector3 = "rat \<times> rat \<times> rat"

record SoundEffectInstance =
  state :: SoundState
  looped :: bool
  pitch_set :: rat
  volume_set :: rat
  applied3D :: "(Vector3 \<times> Vector3) option"

definition GetState :: "SoundEffectInstance \<Rightarrow> SoundState" where
  "GetState x = state x"

definition Play :: "bool \<Rightarrow> SoundEffectInstance \<Rightarrow> SoundEffectInstance" where
  "Play lp x = x\<lparr>state := PLAYING, looped := lp\<rparr>"

definition SetPitch :: "rat \<Rightarrow> SoundEffectInstance \<Rightarrow> SoundEffectInstance" where
  "SetPitch p x = x\<lparr>pitch_set := p\<rparr>"

definition SetVolume :: "rat \<Rightarrow> SoundEffectInstance \<Rightarrow> SoundEffectInstance" where
  "SetVolume v x = x\<lparr>volume_set := v\<rparr>"

definition Apply3D :: "Vector3 \<Rightarrow> Vector3 \<Rightarrow> SoundEffectInstance \<Rightarrow> SoundEffectInstance" where
  "Apply3D listener emitter x = x\<lparr>applied3D := Some (listener, emitter)\<rparr>"

text \<open>
  \<open>m_nInstanceCount\<close> and \<open>m_pInstance\<close> are the two arrays of
  \<open>m_nMaxSounds\<close> entries that \<open>Load()\<close> allocates; \<open>m_pInstance[i]\<close> is the
  array of instances of sound \<open>i\<close> (empty while it is still \<open>nullptr\<close>).
\<close>

record CSoundManager =
  m_nCount :: int
  m_nMaxSounds :: int
  m_nInstanceCount :: "int list"
  m_pInstance :: "SoundEffectInstance list list"
  m_nLastPlayedSound :: int
  m_nLastPlayedInstance :: int

text \<open>
  The loop of \<open>getNextInstance\<close>: \<open>n\<close> is \<open>m_nInstanceCount[index]\<close>,
  \<open>insts\<close> is \<open>m_pInstance[index]\<close>.
\<close>

function getNextInstance_loop ::
  "int \<Rightarrow> SoundEffectInstance list \<Rightarrow> int \<Rightarrow> SoundState \<Rightarrow> error + int" where
  "getNextInstance_loop n insts instance soundState =
     (if instance < n \<and> soundState = PLAYING then
        (if instance + 1 < n then
           bindE (rd insts (instance + 1))
             (\<lambda>x. getNextInstance_loop n insts (instance + 1) (GetState x))
         else getNextInstance_loop n insts (instance + 1) soundState)
      else Inr instance)"
  by pat_completeness auto
termination
  by (relation "measure (\<lambda>(n, insts, instance, soundState). nat (n - instance))") auto

declare getNextInstance_loop.simps [simp del]

definition getNextInstance :: "CSoundManager \<Rightarrow> int \<Rightarrow> error + int" where
  "getNextInstance S index =
     bindE (rd (m_pInstance S) index) (\<lambda>insts.
     bindE (rd insts 0) (\<lambda>first.
     bindE (rd (m_nInstanceCount S) index) (\<lambda>n.
       getNextInstance_loop n insts 0 (GetState first))))"

text \<open>\<open>play\<close> and \<open>loop\<close>: the pair is the returned \<open>int\<close> and the manager afterwards.\<close>

definition play :: "CSoundManager \<Rightarrow> int \<Rightarrow> error + (int \<times> CSoundManager)" where
  "play S index =
     (if index < 0 \<or> index \<ge> m_nCount S then Inr (-1, S)
      else
        bindE (getNextInstance S index) (\<lambda>instance.
        bindE (rd (m_nInstanceCount S) index) (\<lambda>n.
        bindE (if instance < n then
                 bindE (rd (m_pInstance S) index) (\<lambda>insts.
                 bindE (rd insts instance) (\<lambda>x.
                 bindE (wr insts instance (Play False x)) (\<lambda>insts'.
                 bindE (wr (m_pInstance S) index insts') (\<lambda>all'.
                   Inr (S\<lparr>m_pInstance := all'\<rparr>)))))
               else Inr S) (\<lambda>S'.
          Inr (instance,
               S'\<lparr>m_nLastPlayedSound := index, m_nLastPlayedInstance := instance\<rparr>)))))"

definition loop :: "CSoundManager \<Rightarrow> int \<Rightarrow> error + (int \<times> CSoundManager)" where
  "loop S index =
     (if index < 0 \<or> index \<ge> m_nCount S then Inr (-1, S)
      else
        bindE (getNextInstance S index) (\<lambda>instance.
        bindE (rd (m_nInstanceCount S) index) (\<lambda>n.
        bindE (if instance < n then
                 bindE (rd (m_pInstance S) index) (\<lambda>insts.
                 bindE (rd insts instance) (\<lambda>x.
                 bindE (wr insts instance (Play True x)) (\<lambda>insts'.
                 bindE (wr (m_pInstance S) index insts') (\<lambda>all'.
                   Inr (S\<lparr>m_pInstance := all'\<rparr>)))))
               else Inr S) (\<lambda>S'.
          Inr (instance,
               S'\<lparr>m_nLastPlayedSound := index, m_nLastPlayedInstance := instance\<rparr>)))))"

text \<open>
  The one step \<open>move\<close>, \<open>pitch\<close> and \<open>volume\<close> share:
  \<open>if(instance >= 0 && instance < m_nInstanceCount[index]) m_pInstance[index][instance]->f(...)\<close>.
  The sound index is used as it is, to read both arrays.
\<close>

definition on_instance ::
  "(SoundEffectInstance \<Rightarrow> SoundEffectInstance) \<Rightarrow> CSoundManager \<Rightarrow> int \<Rightarrow> int
     \<Rightarrow> error + CSoundManager" where
  "on_instance f S instance index =
     (if instance \<ge> 0 then
        bindE (rd (m_nInstanceCount S) index) (\<lambda>n.
          if instance < n then
            bindE (rd (m_pInstance S) index) (\<lambda>insts.
            bindE (rd insts instance) (\<lambda>x.
            bindE (wr insts instance (f x)) (\<lambda>insts'.
            bindE (wr (m_pInstance S) index insts') (\<lambda>all'.
              Inr (S\<lparr>m_pInstance := all'\<rparr>)))))
          else Inr S)
      else Inr S)"

text \<open>
  \<open>move(ePos, instance, index)\<close>; \<open>gw\<close> and \<open>gh\<close> are the globals
  \<open>g_nScreenWidth\<close> and \<open>g_nScreenHeight\<close>. An argument left out is \<open>-1\<close>.
\<close>

definition SCALE :: rat where
  "SCALE = 500"

definition vdiv :: "Vector3 \<Rightarrow> rat \<Rightarrow> Vector3" where
  "vdiv v k = (case v of (x, y, z) \<Rightarrow> (x / k, y / k, z / k))"

definition move ::
  "int \<Rightarrow> int \<Rightarrow> CSoundManager \<Rightarrow> Vector3 \<Rightarrow> int \<Rightarrow> int \<Rightarrow> error + CSoundManager" where
  "move gw gh S ePos instance0 index0 =
     (let index = (if index0 = -1 then m_nLastPlayedSound S else index0);
          instance = (if instance0 = -1 then m_nLastPlayedInstance S else instance0);
          v = (of_int gw / 2, of_int gh / 2, 0)
      in on_instance (Apply3D (vdiv v SCALE) (vdiv ePos SCALE)) S instance index)"

definition pitch :: "CSoundManager \<Rightarrow> rat \<Rightarrow> int \<Rightarrow> int \<Rightarrow> error + CSoundManager" where
  "pitch S p instance0 index0 =
     (let index = (if index0 = -1 then m_nLastPlayedSound S else index0);
          instance = (if instance0 = -1 then m_nLastPlayedInstance S else instance0)
      in on_instance (SetPitch p) S instance index)"

definition volume :: "CSoundManager \<Rightarrow> rat \<Rightarrow> int \<Rightarrow> int \<Rightarrow> error + CSoundManager" where
  "volume S v instance0 index0 =
     (let index = (if index0 = -1 then m_nLastPlayedSound S else index0);
          instance = (if instance0 = -1 then m_nLastPlayedInstance S else instance0)
      in on_instance (SetVolume v) S instance index)"

text \<open>
  What \<open>createInstances(index, n, flags)\<close> leaves for a sound when \<open>n \<ge> 1\<close>:
  both arrays have the entry, \<open>m_nInstanceCount[index]\<close> is \<open>n\<close> and
  \<open>m_pInstance[index]\<close> holds \<open>n\<close> instances.
\<close>

definition created :: "CSoundManager \<Rightarrow> int \<Rightarrow> bool" where
  "created S index =
     (0 \<le> index \<and> index < int (length (m_nInstanceCount S)) \<and>
      index < int (length (m_pInstance S)) \<and>
      1 \<le> m_nInstanceCount S ! nat index \<and>
      int (length (m_pInstance S ! nat index)) = m_nInstanceCount S ! nat index)"

text \<open>Whether instance \<open>i\<close> of a sound reports \<open>PLAYING\<close>.\<close>

definition playing_at :: "CSoundManager \<Rightarrow> int \<Rightarrow> nat \<Rightarrow> bool" where
  "playing_at S index i = (GetState (m_pInstance S ! nat index ! i) = PLAYING)"

text \<open>A manager with one sound, whose instances are in the given states.\<close>

definition fresh :: "SoundState \<Rightarrow> SoundEffectInstance" where
  "fresh st = \<lparr>state = st, looped = False, pitch_set = 0, volume_set = 1, applied3D = None\<rparr>"

definition one_sound :: "SoundState list \<Rightarrow> CSoundManager" where
  "one_sound sts =
     \<lparr>m_nCount = 1, m_nMaxSounds = 1, m_nInstanceCount = [int (length sts)],
      m_pInstance = [map fresh sts], m_nLastPlayedSound = 0, m_nLastPlayedInstance = 0\<rparr>"

section \<open>Timer (timer.cpp)\<close>

text \<open>
  The fields are C++ \<open>int\<close>s. An addition, subtraction or multiplication whose
  result leaves the range of \<open>int\<close> is undefined in C++: it is the error
  \<open>SignedOverflow\<close>.
\<close>

definition in_int :: "int \<Rightarrow> bool" where
  "in_int v = (- 2147483648 \<le> v \<and> v \<le> 2147483647)"

definition int_add :: "int \<Rightarrow> int \<Rightarrow> error + int" where
  "int_add a b = (if in_int (a + b) then Inr (a + b) else Inl SignedOverflow)"

definition int_sub :: "int \<Rightarrow> int \<Rightarrow> error + int" where
  "int_sub a b = (if in_int (a - b) then Inr (a - b) else Inl SignedOverflow)"

definition int_mul :: "int \<Rightarrow> int \<Rightarrow> error + int" where
  "int_mul a b = (if in_int (a * b) then Inr (a * b) else Inl SignedOverflow)"

record CTimer =
  m_nStartTime :: int
  m_nCurrentTime :: int
  m_nLastFrameStartTime :: int
  m_nFrameTime :: int
  m_nLevelStartTime :: int
  m_nLevelFinishTime :: int
  m_bLevelTimerOn :: bool
  m_bStepMode :: bool

text \<open>
  The constructor. It leaves \<open>m_nCurrentTime\<close> uninitialised: \<open>cur\<close> is the
  value the field happens to hold.
\<close>

definition CTimer_new :: "int \<Rightarrow> CTimer" where
  "CTimer_new cur =
     \<lparr>m_nStartTime = 0, m_nCurrentTime = cur, m_nLastFrameStartTime = 0, m_nFrameTime = 0,
      m_nLevelStartTime = 0, m_nLevelFinishTime = 0, m_bLevelTimerOn = False,
      m_bStepMode = False\<rparr>"

definition time :: "CTimer \<Rightarrow> int" where
  "time T = m_nCurrentTime T"

definition frametime :: "CTimer \<Rightarrow> int" where
  "frametime T = m_nFrameTime T"


text \<open>\<open>beginframe()\<close>; \<open>t\<close> is the clock reading \<open>const int t = timeGetTime()\<close>.\<close>

definition beginframe :: "int \<Rightarrow> CTimer \<Rightarrow> error + CTimer" where
  "beginframe t T =
     bindE (int_sub t (m_nStartTime T)) (\<lambda>c.
     bindE (if \<not> m_bStepMode T then
              bindE (int_sub t (m_nLastFrameStartTime T)) (\<lambda>f.
                Inr (T\<lparr>m_nCurrentTime := c, m_nFrameTime := f\<rparr>))
            else Inr (T\<lparr>m_nCurrentTime := c\<rparr>)) (\<lambda>T'.
       Inr (T'\<lparr>m_nLastFrameStartTime := t\<rparr>)))"

definition endframe :: "CTimer \<Rightarrow> CTimer" where
  "endframe T = T\<lparr>m_nFrameTime := 0\<rparr>"

definition IncrementFrame :: "CTimer \<Rightarrow> CTimer" where
  "IncrementFrame T = (if m_bStepMode T then T\<lparr>m_nFrameTime := 34\<rparr> else T)"

definition ToggleStepMode :: "CTimer \<Rightarrow> CTimer" where
  "ToggleStepMode T = T\<lparr>m_bStepMode := \<not> m_bStepMode T\<rparr>"



text \<open>
  Whether a count of milliseconds is a sixtieth of a second, that is a sixtieth of
  1000 milliseconds rounded down or up.
\<close>

definition sixtieth_of_second :: "int \<Rightarrow> bool" where
  "sixtieth_of_second ms = (ms * 60 \<le> 1000 \<and> 1000 < (ms + 1) * 60 \<or>
                            (ms - 1) * 60 < 1000 \<and> 1000 \<le> ms * 60)"

section \<open>Single-precision floats\<close>

text \<open>
  A \<open>float\<close> of the renderer is an IEEE 754 single: a rational that is \<open>m * 2^j\<close>
  with \<open>\<bar>m\<bar> < 2^24\<close> and \<open>j \<ge> -149\<close>, below \<open>2^128\<close> in size, or else \<open>None\<close>,
  which stands for an infinity or a NaN. Every operation rounds the exact result to
  the nearest such value, ties to the even one.

  \<open>ilog2 n\<close> is the position of the leading bit of \<open>n\<close>, and \<open>rne\<close> rounds a rational
  to the nearest integer, ties to even. \<open>float_round\<close> works in units of
  \<open>2^-149\<close>, the smallest positive single: \<open>e\<close> is the binade of the value, not
  below that of the smallest normal number, and \<open>q\<close> the spacing of the singles there.
\<close>

type_synonym float = "rat option"

fun ilog2 :: "nat \<Rightarrow> nat" where
  "ilog2 n = (if n < 2 then 0 else ilog2 (n div 2) + 1)"

declare ilog2.simps [simp del]

definition rne :: "rat \<Rightarrow> int" where
  "rne x =
     (let f = \<lfloor>x\<rfloor>; d = x - of_int f
      in if d < 1 / 2 then f else if d > 1 / 2 then f + 1 else if even f then f else f + 1)"

definition float_round :: "rat \<Rightarrow> float" where
  "float_round v =
     (let V = v * 2 ^ 149;
          e = max (ilog2 (nat \<lfloor>\<bar>V\<bar>\<rfloor>)) 23;
          q = 2 ^ (e - 23);
          r = of_int (rne (V / q)) * q / 2 ^ 149
      in if \<bar>r\<bar> \<ge> 2 ^ 128 then None else Some r)"

text \<open>
  The conversion \<open>(float)n\<close> and the three operations the text code uses. A
  quotient by zero is an infinity or a NaN. \<open>None\<close> as an operand gives \<open>None\<close>:
  that is IEEE arithmetic for sums and differences, and for quotients whose
  divisor is finite, as every divisor of the text code is (\<open>w - 1\<close>, \<open>h - 1\<close>,
  \<open>2.0f\<close>).
\<close>

definition float_of_int :: "int \<Rightarrow> float" where
  "float_of_int n = float_round (of_int n)"

definition float_add :: "float \<Rightarrow> float \<Rightarrow> float" where
  "float_add a b = (case (a, b) of (Some x, Some y) \<Rightarrow> float_round (x + y) | _ \<Rightarrow> None)"

definition float_sub :: "float \<Rightarrow> float \<Rightarrow> float" where
  "float_sub a b = (case (a, b) of (Some x, Some y) \<Rightarrow> float_round (x - y) | _ \<Rightarrow> None)"

definition float_div :: "float \<Rightarrow> float \<Rightarrow> float" where
  "float_div a b =
     (case (a, b) of
        (Some x, Some y) \<Rightarrow> if y = 0 then None else float_round (x / y)
      | _ \<Rightarrow> None)"

text \<open>\<open>rne\<close> of a fraction of integers, by integer division.\<close>

definition rne_frac :: "int \<Rightarrow> int \<Rightarrow> int" where
  "rne_frac a b =
     (if 2 * (a mod b) < b then a div b
      else if b < 2 * (a mod b) then a div b + 1
      else if even (a div b) then a div b else a div b + 1)"

section \<open>Screen text (renderer.cpp, SpriteSheet.h)\<close>

text \<open>The fields of the sprite sheet and of the renderer that the text code reads.\<close>

record CSpriteSheet =
  m_nWidth :: int
  m_nHeight :: int
  m_nFrameWidth :: int
  m_nFrameHeight :: int

record CRenderer =
  m_pScreenText :: CSpriteSheet
  m_nScreenWidth :: int
  m_nScreenHeight :: int

text \<open>A \<open>Vector3\<close> of the renderer: three \<open>float\<close>s.\<close>

type_synonym Vector3f = "float \<times> float \<times> float"

text \<open>
  One call of \<open>DrawCharFromSpriteSheet\<close> as the device sees it: the position
  given to \<open>SetWorldMatrix\<close>, the arguments \<open>y\<close> and \<open>xoffset\<close>, and the
  four texture coordinates uploaded in the constant buffer. The two horizontal
  coordinates are computed from the \<open>int\<close> \<open>x\<close>: where the arithmetic of \<open>x\<close>
  overflows they have no value, which is the error.
\<close>

record glyph =
  pos :: Vector3f
  sheet_y :: int
  sheet_xoffset :: int
  u0 :: "error + float"
  u1 :: "error + float"
  v0 :: float
  v1 :: float

text \<open>\<open>int x = 1 + xoffset*(m_pScreenText->m_nFrameWidth + 1)\<close>.\<close>

definition sheet_x :: "CRenderer \<Rightarrow> int \<Rightarrow> error + int" where
  "sheet_x R xoffset =
     bindE (int_add (m_nFrameWidth (m_pScreenText R)) 1) (\<lambda>fw1.
     bindE (int_mul xoffset fw1) (\<lambda>p.
       int_add 1 p))"

text \<open>The result is the glyph drawn and the reference parameter \<open>s\<close> afterwards.\<close>

definition DrawCharFromSpriteSheet ::
  "CRenderer \<Rightarrow> Vector3f \<Rightarrow> int \<Rightarrow> int \<Rightarrow> glyph \<times> Vector3f" where
  "DrawCharFromSpriteSheet R s y xoffset =
     (let w = float_of_int (m_nWidth (m_pScreenText R));
          h = float_of_int (m_nHeight (m_pScreenText R));
          fw = float_of_int (m_nFrameWidth (m_pScreenText R));
          fh = float_of_int (m_nFrameHeight (m_pScreenText R));
          x = sheet_x R xoffset
      in (\<lparr>pos = s, sheet_y = y, sheet_xoffset = xoffset,
            u0 = bindE x (\<lambda>x. Inr (float_div (float_of_int x) (float_sub w (float_of_int 1)))),
            u1 = bindE x (\<lambda>x.
                   Inr (float_div (float_add (float_of_int x) fw) (float_sub w (float_of_int 1)))),
            v0 = float_div (float_of_int y) (float_sub h (float_of_int 1)),
            v1 = float_div (float_add (float_of_int y) fh) (float_sub h (float_of_int 1))\<rparr>,
          (case s of (sx, sy, sz) \<Rightarrow> (float_add sx fw, sy, sz))))"

text \<open>
  The value of a \<open>char\<close> in a comparison or a subtraction (the compiler's \<open>char\<close>
  is signed).
\<close>

definition char_val :: "char \<Rightarrow> int" where
  "char_val c = (if of_char c \<ge> (128::int) then of_char c - 256 else of_char c)"

text \<open>
  The chain of tests in the loop of \<open>drawtext\<close> that sets \<open>xoffset\<close> and \<open>y\<close>
  for the character \<open>c\<close>; the pair is \<open>(xoffset, y)\<close>.
\<close>

definition glyph_cell :: "char \<Rightarrow> int \<times> int" where
  "glyph_cell c =
     (if char_val c \<ge> char_val CHR ''A'' \<and> char_val c \<le> char_val CHR ''Z'' then
        (char_val c - char_val CHR ''A'', 48)
      else if char_val c \<ge> char_val CHR ''a'' \<and> char_val c \<le> char_val CHR ''z'' then
        (char_val c - char_val CHR ''a'', 95)
      else if char_val c \<ge> char_val CHR ''0'' \<and> char_val c \<le> char_val CHR ''9'' then
        (char_val c - char_val CHR ''0'', 0)
      else (10, 1))"

text \<open>The loop of \<open>drawtext\<close> over the characters left, from position \<open>s\<close>.\<close>

fun drawtext_loop :: "CRenderer \<Rightarrow> Vector3f \<Rightarrow> string \<Rightarrow> glyph list" where
  "drawtext_loop R s [] = []"
| "drawtext_loop R s (c # cs) =
     (case glyph_cell c of (xoffset, y) \<Rightarrow>
        (case DrawCharFromSpriteSheet R s y xoffset of (g, s') \<Rightarrow>
           g # drawtext_loop R s' cs))"

text \<open>
  Conversion of an \<open>int\<close> to \<open>size_t\<close>, and the arithmetic of \<open>size_t\<close>, are
  modulo \<open>2 ^ N\<close>, where \<open>N\<close> is the width of \<open>size_t\<close> (32 in a Win32 build,
  64 in an x64 build).
\<close>

definition to_size_t :: "nat \<Rightarrow> int \<Rightarrow> int" where
  "to_size_t N v = v mod 2 ^ N"

text \<open>
  \<open>drawtext(text)\<close>; \<open>text\<close> is the characters before the terminating zero, so
  \<open>strlen(text)\<close> is its length. In
  \<open>m_nScreenWidth - strlen(text)*m_pScreenText->m_nFrameWidth\<close> the type of
  \<open>strlen\<close> makes both the product and the difference \<open>size_t\<close> arithmetic;
  the division by \<open>2.0f\<close> converts the difference to \<open>float\<close>.
\<close>

definition drawtext :: "nat \<Rightarrow> CRenderer \<Rightarrow> string \<Rightarrow> glyph list" where
  "drawtext N R text =
     (let len = to_size_t N (int (length text));
          prod = to_size_t N (len * to_size_t N (m_nFrameWidth (m_pScreenText R)));
          diff = to_size_t N (to_size_t N (m_nScreenWidth R) - prod);
          s = (float_div (float_round (of_int diff)) (Some 2),
               float_div (float_of_int (m_nScreenHeight R)) (Some 2),
               Some (- 1000))
      in drawtext_loop R s text)"

text \<open>The sheet's three rows of characters, in the order of their columns.\<close>

definition uppercase :: string where
  "uppercase = ''ABCDEFGHIJKLMNOPQRSTUVWXYZ''"

definition lowercase :: string where
  "lowercase = ''abcdefghijklmnopqrstuvwxyz''"

definition digits :: string where
  "digits = ''0123456789''"

text \<open>
  A renderer as \<open>InitScreenText\<close> sets it up, with frames of 21 by 37 pixels,
  for a sheet of 573 by 133 pixels and a screen of 1024 by 768.
\<close>

definition text_renderer :: CRenderer where
  "text_renderer =
     \<lparr>m_pScreenText = \<lparr>m_nWidth = 573, m_nHeight = 133, m_nFrameWidth = 21,
                        m_nFrameHeight = 37\<rparr>,
      m_nScreenWidth = 1024, m_nScreenHeight = 768\<rparr>"

section \<open>Sprite manager (SpriteMan.cpp)\<close>

text \<open>
  The settings are the XML element \<open>g_xmlSettings\<close> (or \<open>nullptr\<close>), its child
  \<open>sprites\<close> (or none), and the \<open>sprite\<close> children of that in document order,
  each with its \<open>name\<close> and \<open>file\<close> attributes.
\<close>

type_synonym sprite_elem = "string \<times> string"

type_synonym xml_settings = "sprite_elem list option option"

text \<open>A sprite is the file it was loaded from.\<close>

record C3DSprite =
  file_name :: string

record CSpriteManager =
  m_pSprite :: "C3DSprite option list"
  m_pBuffer :: string

definition NUM_SPRITES :: int where
  "NUM_SPRITES = 512"

definition MAX_PATH :: nat where
  "MAX_PATH = 260"

definition CSpriteManager_new :: CSpriteManager where
  "CSpriteManager_new = \<lparr>m_pSprite = replicate (nat NUM_SPRITES) None, m_pBuffer = []\<rparr>"

text \<open>
  What the graphics device does for a file when \<open>C3DSprite::Load\<close> is called:
  whether \<open>CreateWICTextureFromFile\<close> creates the texture (when it does not,
  \<open>m_pTexture\<close> is still the constructor's \<open>nullptr\<close>), and whether
  \<open>CreateBuffer\<close> succeeds.
\<close>

record device_result =
  texture_created :: bool
  buffer_created :: bool

text \<open>
  \<open>C3DSprite::Load(filename)\<close>. \<open>LoadTexture\<close> does not look at the result of
  \<open>CreateWICTextureFromFile\<close> and calls \<open>m_pTexture->GetResource(&r)\<close> next; the
  value returned is \<open>SUCCEEDED(hr)\<close> of \<open>CreateBuffer\<close>.
\<close>

definition C3DSprite_Load :: "(string \<Rightarrow> device_result) \<Rightarrow> string \<Rightarrow> error + bool" where
  "C3DSprite_Load dev filename =
     (if \<not> texture_created (dev filename) then Inl NullPointer
      else Inr (buffer_created (dev filename)))"

text \<open>
  \<open>LoadFile(sprite, file)\<close>. \<open>sprintf_s\<close> does not return when the name does not
  fit the buffer.
\<close>

definition LoadFile ::
  "(string \<Rightarrow> device_result) \<Rightarrow> CSpriteManager \<Rightarrow> int \<Rightarrow> string
     \<Rightarrow> error + (bool \<times> CSpriteManager)" where
  "LoadFile dev M sprite file =
     bindE (wr (m_pSprite M) sprite (Some \<lparr>file_name = file\<rparr>)) (\<lambda>sprites.
       if length file \<ge> MAX_PATH then Inl InvalidParameter
       else
         bindE (C3DSprite_Load dev file) (\<lambda>ok.
           Inr (ok, M\<lparr>m_pSprite := sprites, m_pBuffer := file\<rparr>)))"

text \<open>
  The loop
  \<open>while(spr && strcmp(name, spr->Attribute("name"))) spr = spr->NextSiblingElement("sprite")\<close>.
\<close>

fun find_sprite :: "string \<Rightarrow> sprite_elem list \<Rightarrow> sprite_elem option" where
  "find_sprite name [] = None"
| "find_sprite name (spr # rest) = (if name \<noteq> fst spr then find_sprite name rest else Some spr)"

text \<open>
  Modelled from the spec: the macro \<open>ABORT\<close> of \<open>abort.h\<close>, which is not among
  the sources. The process aborts with the diagnostic: here
  the words \<open>Cannot load sprite\<close>, the name between double quotes, a full stop and a
  line feed.
\<close>

definition ABORT_cannot_load :: "string \<Rightarrow> error + 'a" where
  "ABORT_cannot_load name =
     Inl (Aborted (''Cannot load sprite '' @ [CHR 0x22] @ name @ [CHR 0x22] @ ''.'' @ [CHR 0x0A]))"

definition Load ::
  "(string \<Rightarrow> device_result) \<Rightarrow> xml_settings \<Rightarrow> CSpriteManager \<Rightarrow> int \<Rightarrow> string \<Rightarrow> error + CSpriteManager" where
  "Load dev g_xmlSettings M sprite name =
     bindE (case g_xmlSettings of
              None \<Rightarrow> Inr (False, M)
            | Some None \<Rightarrow> Inr (False, M)
            | Some (Some spriteSettings) \<Rightarrow>
                (case find_sprite name spriteSettings of
                   None \<Rightarrow> Inr (False, M)
                 | Some spr \<Rightarrow> LoadFile dev M sprite (snd spr))) (\<lambda>(success, M').
       if \<not> success then ABORT_cannot_load name else Inr M')"

text \<open>Whether the settings hold a sprite of that name, and the file of the first such.\<close>

definition file_of :: "xml_settings \<Rightarrow> string \<Rightarrow> string option" where
  "file_of X name = (case X of Some (Some elems) \<Rightarrow> map_of elems name | _ \<Rightarrow> None)"

text \<open>
  Settings with three sprites, and a device on which the first file loads, the
  second cannot be read, and the vertex buffer for the third cannot be created.
\<close>

definition example_settings :: xml_settings where
  "example_settings =
     Some (Some [(''ball'', ''ball.png''), (''crate'', ''crate.png''), (''lamp'', ''lamp.png'')])"

definition example_device :: "string \<Rightarrow> device_result" where
  "example_device f =
     \<lparr>texture_created = (f \<noteq> ''crate.png''), buffer_created = (f \<noteq> ''lamp.png'')\<rparr>"

section \<open>Properties of the sound manager\<close>

lemma bindE_Inr [simp]: "bindE (Inr x) f = f x"
  by (simp add: bindE_def)

lemma bindE_Inl [simp]: "bindE (Inl e) f = Inl e"
  by (simp add: bindE_def)

lemma getNextInstance_loop_takeWhile:
  "0 \<le> i \<Longrightarrow> int (length insts) = n \<Longrightarrow> (i < n \<longrightarrow> st = state (insts ! nat i)) \<Longrightarrow>
   getNextInstance_loop n insts i st =
     Inr (i + int (length (takeWhile (\<lambda>x. state x = PLAYING) (drop (nat i) insts))))"
proof (induction n insts i st rule: getNextInstance_loop.induct)
  case (1 n insts i st)
  show ?case
  proof (cases "i < n")
    case False
    with "1.prems" show ?thesis
      by (subst getNextInstance_loop.simps) simp
  next
    case inb: True
    with "1.prems" have st: "st = state (insts ! nat i)" by simp
    from inb "1.prems" have lt: "nat i < length insts" by linarith
    have dr: "drop (nat i) insts = insts ! nat i # drop (nat (i + 1)) insts"
      using lt "1.prems"(1) by (simp add: Cons_nth_drop_Suc nat_add_distrib)
    show ?thesis
    proof (cases "st = PLAYING")
      case False
      with st dr show ?thesis
        by (subst getNextInstance_loop.simps) simp
    next
      case pl: True
      show ?thesis
      proof (cases "i + 1 < n")
        case True
        then have r: "rd insts (i + 1) = Inr (insts ! nat (i + 1))"
          using "1.prems" by (simp add: rd_def)
        have "getNextInstance_loop n insts (i + 1) (GetState (insts ! nat (i + 1))) =
              Inr (i + 1 + int (length (takeWhile (\<lambda>x. state x = PLAYING) (drop (nat (i + 1)) insts))))"
          using "1.IH"(1) [OF _ True, of "insts ! nat (i + 1)"] inb pl "1.prems" r
          by (simp add: GetState_def)
        then show ?thesis
          using inb pl True r st dr by (subst getNextInstance_loop.simps) simp
      next
        case False
        have "getNextInstance_loop n insts (i + 1) st =
              Inr (i + 1 + int (length (takeWhile (\<lambda>x. state x = PLAYING) (drop (nat (i + 1)) insts))))"
          using "1.IH"(2) inb pl False "1.prems" by simp
        then show ?thesis
          using inb pl False st dr by (subst getNextInstance_loop.simps) simp
      qed
    qed
  qed
qed

lemma getNextInstance_created:
  assumes "created S index"
  shows "getNextInstance S index =
         Inr (int (length (takeWhile (\<lambda>x. state x = PLAYING) (m_pInstance S ! nat index))))"
proof -
  let ?insts = "m_pInstance S ! nat index"
  from assms have a: "rd (m_pInstance S) index = Inr ?insts"
    and b: "rd ?insts 0 = Inr (?insts ! 0)"
    and c: "rd (m_nInstanceCount S) index = Inr (int (length ?insts))"
    by (simp_all add: created_def rd_def)
  have "getNextInstance_loop (int (length ?insts)) ?insts 0 (state (?insts ! 0)) =
        Inr (0 + int (length (takeWhile (\<lambda>x. state x = PLAYING) (drop (nat 0) ?insts))))"
    by (rule getNextInstance_loop_takeWhile) simp_all
  then show ?thesis
    by (simp add: getNextInstance_def a b c GetState_def)
qed

lemma takeWhile_all: "(\<forall>i<length xs. P (xs ! i)) \<Longrightarrow> length (takeWhile P xs) = length xs"
  by (simp add: all_set_conv_all_nth [symmetric] takeWhile_eq_all_conv [THEN iffD2])

lemma takeWhile_first:
  "k < length xs \<Longrightarrow> \<not> P (xs ! k) \<Longrightarrow> (\<forall>i<k. P (xs ! i)) \<Longrightarrow> length (takeWhile P xs) = k"
proof -
  assume k: "k < length xs" and n: "\<not> P (xs ! k)" and a: "\<forall>i<k. P (xs ! i)"
  have "length (takeWhile P xs) \<le> k"
  proof (rule ccontr)
    assume "\<not> length (takeWhile P xs) \<le> k"
    then have "k < length (takeWhile P xs)" by simp
    then have "P (takeWhile P xs ! k)" by (meson nth_mem set_takeWhileD)
    moreover have "takeWhile P xs ! k = xs ! k"
      using \<open>k < length (takeWhile P xs)\<close> by (rule takeWhile_nth)
    ultimately show False using n by simp
  qed
  moreover have "k \<le> length (takeWhile P xs)"
    using a k by (intro length_takeWhile_less_P_nth) auto
  ultimately show ?thesis by simp
qed

text \<open>
  Claim C1. For a sound whose \<open>n \<ge> 1\<close> instances were created,
  \<open>getNextInstance(index)\<close> returns \<open>n\<close> when all \<open>n\<close> instances are playing, and
  otherwise the smallest index in \<open>0..n-1\<close> whose instance is not playing.
\<close>

theorem getNextInstance_first_idle:
  assumes "created S index"
  shows "((\<forall>i < length (m_pInstance S ! nat index). playing_at S index i) \<longrightarrow>
            getNextInstance S index = Inr (m_nInstanceCount S ! nat index)) \<and>
         (\<forall>k < length (m_pInstance S ! nat index).
            \<not> playing_at S index k \<and> (\<forall>i<k. playing_at S index i) \<longrightarrow>
            getNextInstance S index = Inr (int k))"
proof (intro conjI impI allI)
  assume "\<forall>i < length (m_pInstance S ! nat index). playing_at S index i"
  then have "length (takeWhile (\<lambda>x. state x = PLAYING) (m_pInstance S ! nat index)) =
             length (m_pInstance S ! nat index)"
    by (intro takeWhile_all) (simp add: playing_at_def GetState_def)
  with assms show "getNextInstance S index = Inr (m_nInstanceCount S ! nat index)"
    by (simp add: getNextInstance_created created_def)
next
  fix k
  assume k: "k < length (m_pInstance S ! nat index)"
    and h: "\<not> playing_at S index k \<and> (\<forall>i<k. playing_at S index i)"
  have "length (takeWhile (\<lambda>x. state x = PLAYING) (m_pInstance S ! nat index)) = k"
    using k h by (intro takeWhile_first) (simp_all add: playing_at_def GetState_def)
  with assms show "getNextInstance S index = Inr (int k)"
    by (simp add: getNextInstance_created)
qed

lemma created_one_sound: "sts \<noteq> [] \<Longrightarrow> created (one_sound sts) 0"
  by (cases sts) (simp_all add: created_def one_sound_def)

theorem getNextInstance_first_idle_witness:
  "created (one_sound [PLAYING, PLAYING]) 0 \<and>
   playing_at (one_sound [PLAYING, PLAYING]) 0 0 \<and>
   playing_at (one_sound [PLAYING, PLAYING]) 0 1 \<and>
   getNextInstance (one_sound [PLAYING, PLAYING]) 0 = Inr 2 \<and>
   created (one_sound [PLAYING, PAUSED, PLAYING]) 0 \<and>
   \<not> playing_at (one_sound [PLAYING, PAUSED, PLAYING]) 0 1 \<and>
   playing_at (one_sound [PLAYING, PAUSED, PLAYING]) 0 0 \<and>
   getNextInstance (one_sound [PLAYING, PAUSED, PLAYING]) 0 = Inr 1"
proof -
  have c1: "created (one_sound [PLAYING, PLAYING]) 0"
    by (simp add: created_one_sound)
  have a1: "\<forall>i < length (m_pInstance (one_sound [PLAYING, PLAYING]) ! nat 0).
      playing_at (one_sound [PLAYING, PLAYING]) 0 i"
    by (simp add: one_sound_def playing_at_def GetState_def fresh_def less_Suc_eq)
  have c2: "created (one_sound [PLAYING, PAUSED, PLAYING]) 0"
    by (simp add: created_one_sound)
  have n2: "\<not> playing_at (one_sound [PLAYING, PAUSED, PLAYING]) 0 1"
    by (simp add: one_sound_def playing_at_def GetState_def fresh_def)
  have a2: "\<forall>i<1. playing_at (one_sound [PLAYING, PAUSED, PLAYING]) 0 i"
    by (simp add: one_sound_def playing_at_def GetState_def fresh_def)
  have l2: "(1::nat) < length (m_pInstance (one_sound [PLAYING, PAUSED, PLAYING]) ! nat 0)"
    by (simp add: one_sound_def)
  from getNextInstance_first_idle [OF c1] a1
  have r1: "getNextInstance (one_sound [PLAYING, PLAYING]) 0 = Inr 2"
    by (simp add: one_sound_def)
  from getNextInstance_first_idle [OF c2] l2 n2 a2
  have r2: "getNextInstance (one_sound [PLAYING, PAUSED, PLAYING]) 0 = Inr 1"
    by (metis of_nat_1)
  from c1 a1 r1 c2 n2 a2 r2 show ?thesis
    by (simp add: one_sound_def)
qed


lemma rd_Inr: "0 \<le> i \<Longrightarrow> i < int (length xs) \<Longrightarrow> rd xs i = Inr (xs ! nat i)"
  by (simp add: rd_def)

lemma play_created:
  assumes "created S index" and "index < m_nCount S"
    and "getNextInstance S index = Inr r"
  shows "play S index =
         (if r < m_nInstanceCount S ! nat index then
            bindE (rd (m_pInstance S ! nat index) r) (\<lambda>x.
            bindE (wr (m_pInstance S ! nat index) r (Play False x)) (\<lambda>insts'.
            bindE (wr (m_pInstance S) index insts') (\<lambda>all'.
              Inr (r, S\<lparr>m_pInstance := all', m_nLastPlayedSound := index,
                        m_nLastPlayedInstance := r\<rparr>))))
          else Inr (r, S\<lparr>m_nLastPlayedSound := index, m_nLastPlayedInstance := r\<rparr>))"
  using assms
  by (auto simp add: play_def created_def rd_Inr bindE_def split: sum.splits)

lemma loop_created:
  assumes "created S index" and "index < m_nCount S"
    and "getNextInstance S index = Inr r"
  shows "loop S index =
         (if r < m_nInstanceCount S ! nat index then
            bindE (rd (m_pInstance S ! nat index) r) (\<lambda>x.
            bindE (wr (m_pInstance S ! nat index) r (Play True x)) (\<lambda>insts'.
            bindE (wr (m_pInstance S) index insts') (\<lambda>all'.
              Inr (r, S\<lparr>m_pInstance := all', m_nLastPlayedSound := index,
                        m_nLastPlayedInstance := r\<rparr>))))
          else Inr (r, S\<lparr>m_nLastPlayedSound := index, m_nLastPlayedInstance := r\<rparr>))"
  using assms
  by (auto simp add: loop_def created_def rd_Inr bindE_def split: sum.splits)

lemma getNextInstance_all_playing:
  assumes "created S index"
    and "\<forall>i < length (m_pInstance S ! nat index). playing_at S index i"
  shows "getNextInstance S index = Inr (m_nInstanceCount S ! nat index)"
proof -
  from assms(2) have "length (takeWhile (\<lambda>x. state x = PLAYING) (m_pInstance S ! nat index)) =
             length (m_pInstance S ! nat index)"
    by (intro takeWhile_all) (simp add: playing_at_def GetState_def)
  with assms show ?thesis
    by (simp add: getNextInstance_created created_def)
qed


lemma play_created_returns:
  assumes "created S index" and "index < m_nCount S"
  shows "\<exists>r S'. play S index = Inr (r, S') \<and> getNextInstance S index = Inr r \<and>
           m_nLastPlayedSound S' = index \<and> m_nLastPlayedInstance S' = r \<and>
           m_nInstanceCount S' = m_nInstanceCount S \<and>
           (\<not> r < m_nInstanceCount S ! nat index \<longrightarrow> m_pInstance S' = m_pInstance S)"
proof -
  let ?insts = "m_pInstance S ! nat index"
  let ?r = "int (length (takeWhile (\<lambda>x. state x = PLAYING) ?insts))"
  have g: "getNextInstance S index = Inr ?r"
    using assms(1) by (rule getNextInstance_created)
  have le: "?r \<le> int (length ?insts)"
    by (simp add: length_takeWhile_le)
  show ?thesis
  proof (cases "?r < m_nInstanceCount S ! nat index")
    case True
    with assms(1) have "?r < int (length ?insts)" by (simp add: created_def)
    with True assms(1) show ?thesis
      using play_created [OF assms g] g
      by (simp add: rd_def wr_def created_def)
  next
    case False
    then show ?thesis
      using play_created [OF assms g] g by simp
  qed
qed

lemma loop_created_returns:
  assumes "created S index" and "index < m_nCount S"
  shows "\<exists>r S'. loop S index = Inr (r, S') \<and> getNextInstance S index = Inr r \<and>
           m_nLastPlayedSound S' = index \<and> m_nLastPlayedInstance S' = r \<and>
           m_nInstanceCount S' = m_nInstanceCount S \<and>
           (\<not> r < m_nInstanceCount S ! nat index \<longrightarrow> m_pInstance S' = m_pInstance S)"
proof -
  let ?insts = "m_pInstance S ! nat index"
  let ?r = "int (length (takeWhile (\<lambda>x. state x = PLAYING) ?insts))"
  have g: "getNextInstance S index = Inr ?r"
    using assms(1) by (rule getNextInstance_created)
  have le: "?r \<le> int (length ?insts)"
    by (simp add: length_takeWhile_le)
  show ?thesis
  proof (cases "?r < m_nInstanceCount S ! nat index")
    case True
    with assms(1) have "?r < int (length ?insts)" by (simp add: created_def)
    with True assms(1) show ?thesis
      using loop_created [OF assms g] g
      by (simp add: rd_def wr_def created_def)
  next
    case False
    then show ?thesis
      using loop_created [OF assms g] g by simp
  qed
qed

lemma on_instance_past_end:
  assumes "0 \<le> index" and "index < int (length (m_nInstanceCount S))"
    and "m_nInstanceCount S ! nat index \<le> instance"
  shows "on_instance f S instance index = Inr S"
  using assms by (simp add: on_instance_def rd_def)

lemma on_instance_negative: "instance < 0 \<Longrightarrow> on_instance f S instance index = Inr S"
  by (simp add: on_instance_def)

lemma defaulted_after_drop:
  assumes "0 \<le> index" and "index < int (length (m_nInstanceCount S'))"
    and "m_nLastPlayedSound S' = index"
    and "m_nLastPlayedInstance S' = m_nInstanceCount S' ! nat index"
    and "1 \<le> m_nInstanceCount S' ! nat index"
  shows "pitch S' p (-1) (-1) = Inr S' \<and> volume S' v (-1) (-1) = Inr S' \<and>
         move gw gh S' ePos (-1) (-1) = Inr S'"
  using assms by (simp add: pitch_def volume_def move_def on_instance_past_end)

text \<open>
  Claim C10. After \<open>play(index)\<close> or \<open>loop(index)\<close> with a valid index the last-played
  pair is the index and the instance \<open>getNextInstance\<close> chose, also when nothing was
  played; then the recorded instance is \<open>n\<close>, and \<open>pitch\<close>, \<open>volume\<close> and \<open>move\<close>
  with both arguments left out change nothing. With an invalid index both calls
  return \<open>-1\<close> and change nothing.
\<close>

theorem last_played_recorded:
  "(created S index \<and> index < m_nCount S \<longrightarrow>
      (\<exists>r S'. play S index = Inr (r, S') \<and> getNextInstance S index = Inr r \<and>
          m_nLastPlayedSound S' = index \<and> m_nLastPlayedInstance S' = r \<and>
          ((\<forall>i < length (m_pInstance S ! nat index). playing_at S index i) \<longrightarrow>
             r = m_nInstanceCount S ! nat index \<and>
             pitch S' p (-1) (-1) = Inr S' \<and> volume S' v (-1) (-1) = Inr S' \<and>
             move gw gh S' ePos (-1) (-1) = Inr S')) \<and>
      (\<exists>r S'. loop S index = Inr (r, S') \<and> getNextInstance S index = Inr r \<and>
          m_nLastPlayedSound S' = index \<and> m_nLastPlayedInstance S' = r \<and>
          ((\<forall>i < length (m_pInstance S ! nat index). playing_at S index i) \<longrightarrow>
             r = m_nInstanceCount S ! nat index \<and>
             pitch S' p (-1) (-1) = Inr S' \<and> volume S' v (-1) (-1) = Inr S' \<and>
             move gw gh S' ePos (-1) (-1) = Inr S'))) \<and>
   (index < 0 \<or> m_nCount S \<le> index \<longrightarrow>
      play S index = Inr (-1, S) \<and> loop S index = Inr (-1, S))"
proof (intro conjI impI)
  assume h: "created S index \<and> index < m_nCount S"
  then have c: "created S index" and v: "index < m_nCount S" by simp_all
  from play_created_returns [OF c v] obtain r S' where
    p: "play S index = Inr (r, S')" and g: "getNextInstance S index = Inr r" and
    ls: "m_nLastPlayedSound S' = index" and li: "m_nLastPlayedInstance S' = r" and
    n: "m_nInstanceCount S' = m_nInstanceCount S" by blast
  have "(\<forall>i < length (m_pInstance S ! nat index). playing_at S index i) \<longrightarrow>
             r = m_nInstanceCount S ! nat index \<and>
             pitch S' p (-1) (-1) = Inr S' \<and> volume S' v (-1) (-1) = Inr S' \<and>
             move gw gh S' ePos (-1) (-1) = Inr S'"
  proof
    assume a: "\<forall>i < length (m_pInstance S ! nat index). playing_at S index i"
    from getNextInstance_all_playing [OF c a] g have r: "r = m_nInstanceCount S ! nat index"
      by simp
    have "pitch S' p (-1) (-1) = Inr S' \<and> volume S' v (-1) (-1) = Inr S' \<and>
             move gw gh S' ePos (-1) (-1) = Inr S'"
      using c n ls li r by (intro defaulted_after_drop [of index]) (simp_all add: created_def)
    with r show "r = m_nInstanceCount S ! nat index \<and>
             pitch S' p (-1) (-1) = Inr S' \<and> volume S' v (-1) (-1) = Inr S' \<and>
             move gw gh S' ePos (-1) (-1) = Inr S'"
      by simp
  qed
  with p g ls li show "\<exists>r S'. play S index = Inr (r, S') \<and> getNextInstance S index = Inr r \<and>
          m_nLastPlayedSound S' = index \<and> m_nLastPlayedInstance S' = r \<and>
          ((\<forall>i < length (m_pInstance S ! nat index). playing_at S index i) \<longrightarrow>
             r = m_nInstanceCount S ! nat index \<and>
             pitch S' p (-1) (-1) = Inr S' \<and> volume S' v (-1) (-1) = Inr S' \<and>
             move gw gh S' ePos (-1) (-1) = Inr S')"
    by blast
next
  assume h: "created S index \<and> index < m_nCount S"
  then have c: "created S index" and v: "index < m_nCount S" by simp_all
  from loop_created_returns [OF c v] obtain r S' where
    p: "loop S index = Inr (r, S')" and g: "getNextInstance S index = Inr r" and
    ls: "m_nLastPlayedSound S' = index" and li: "m_nLastPlayedInstance S' = r" and
    n: "m_nInstanceCount S' = m_nInstanceCount S" by blast
  have "(\<forall>i < length (m_pInstance S ! nat index). playing_at S index i) \<longrightarrow>
             r = m_nInstanceCount S ! nat index \<and>
             pitch S' p (-1) (-1) = Inr S' \<and> volume S' v (-1) (-1) = Inr S' \<and>
             move gw gh S' ePos (-1) (-1) = Inr S'"
  proof
    assume a: "\<forall>i < length (m_pInstance S ! nat index). playing_at S index i"
    from getNextInstance_all_playing [OF c a] g have r: "r = m_nInstanceCount S ! nat index"
      by simp
    have "pitch S' p (-1) (-1) = Inr S' \<and> volume S' v (-1) (-1) = Inr S' \<and>
             move gw gh S' ePos (-1) (-1) = Inr S'"
      using c n ls li r by (intro defaulted_after_drop [of index]) (simp_all add: created_def)
    with r show "r = m_nInstanceCount S ! nat index \<and>
             pitch S' p (-1) (-1) = Inr S' \<and> volume S' v (-1) (-1) = Inr S' \<and>
             move gw gh S' ePos (-1) (-1) = Inr S'"
      by simp
  qed
  with p g ls li show "\<exists>r S'. loop S index = Inr (r, S') \<and> getNextInstance S index = Inr r \<and>
          m_nLastPlayedSound S' = index \<and> m_nLastPlayedInstance S' = r \<and>
          ((\<forall>i < length (m_pInstance S ! nat index). playing_at S index i) \<longrightarrow>
             r = m_nInstanceCount S ! nat index \<and>
             pitch S' p (-1) (-1) = Inr S' \<and> volume S' v (-1) (-1) = Inr S' \<and>
             move gw gh S' ePos (-1) (-1) = Inr S')"
    by blast
next
  assume "index < 0 \<or> m_nCount S \<le> index"
  then show "play S index = Inr (-1, S)" by (auto simp add: play_def)
next
  assume "index < 0 \<or> m_nCount S \<le> index"
  then show "loop S index = Inr (-1, S)" by (auto simp add: loop_def)
qed

text \<open>
  Claim C2. For a valid sound index whose \<open>n\<close> instances are all playing,
  \<open>play(index)\<close> and \<open>loop(index)\<close> return \<open>n\<close>, start nothing and leave every
  instance of every sound as it was.
\<close>

theorem play_loop_dropped_when_all_playing:
  assumes "created S index" and "index < m_nCount S"
    and "\<forall>i < length (m_pInstance S ! nat index). playing_at S index i"
  shows "(\<exists>S'. play S index = Inr (m_nInstanceCount S ! nat index, S') \<and>
               m_pInstance S' = m_pInstance S \<and> m_nInstanceCount S' = m_nInstanceCount S) \<and>
         (\<exists>S'. loop S index = Inr (m_nInstanceCount S ! nat index, S') \<and>
               m_pInstance S' = m_pInstance S \<and> m_nInstanceCount S' = m_nInstanceCount S)"
proof -
  have g: "getNextInstance S index = Inr (m_nInstanceCount S ! nat index)"
    using assms(1,3) by (rule getNextInstance_all_playing)
  show ?thesis
    using play_created [OF assms(1,2) g] loop_created [OF assms(1,2) g] by simp
qed

lemma all_playing_one_sound:
  "\<forall>i < length (m_pInstance (one_sound (replicate n PLAYING)) ! nat 0).
      playing_at (one_sound (replicate n PLAYING)) 0 i"
  by (simp add: one_sound_def playing_at_def GetState_def fresh_def)

theorem play_loop_dropped_when_all_playing_witness:
  "created (one_sound [PLAYING, PLAYING]) 0 \<and>
   0 < m_nCount (one_sound [PLAYING, PLAYING]) \<and>
   playing_at (one_sound [PLAYING, PLAYING]) 0 0 \<and>
   playing_at (one_sound [PLAYING, PLAYING]) 0 1 \<and>
   (\<exists>S'. play (one_sound [PLAYING, PLAYING]) 0 = Inr (2, S') \<and>
         m_pInstance S' = [[fresh PLAYING, fresh PLAYING]]) \<and>
   (\<exists>S'. loop (one_sound [PLAYING, PLAYING]) 0 = Inr (2, S') \<and>
         m_pInstance S' = [[fresh PLAYING, fresh PLAYING]])"
proof -
  have c: "created (one_sound [PLAYING, PLAYING]) 0"
    by (simp add: created_one_sound)
  have v: "0 < m_nCount (one_sound [PLAYING, PLAYING])"
    by (simp add: one_sound_def)
  have a: "\<forall>i < length (m_pInstance (one_sound [PLAYING, PLAYING]) ! nat 0).
      playing_at (one_sound [PLAYING, PLAYING]) 0 i"
    using all_playing_one_sound [of 2] by (simp add: numeral_2_eq_2)
  have p: "playing_at (one_sound [PLAYING, PLAYING]) 0 0 \<and>
           playing_at (one_sound [PLAYING, PLAYING]) 0 1"
    by (simp add: one_sound_def playing_at_def GetState_def fresh_def)
  from play_loop_dropped_when_all_playing [OF c v a] c v p show ?thesis
    by (auto simp add: one_sound_def)
qed

theorem last_played_recorded_witness:
  "created (one_sound [PLAYING, PLAYING]) 0 \<and>
   0 < m_nCount (one_sound [PLAYING, PLAYING]) \<and>
   playing_at (one_sound [PLAYING, PLAYING]) 0 0 \<and>
   playing_at (one_sound [PLAYING, PLAYING]) 0 1 \<and>
   (\<exists>S'. play (one_sound [PLAYING, PLAYING]) 0 = Inr (2, S') \<and>
         m_nLastPlayedSound S' = 0 \<and> m_nLastPlayedInstance S' = 2 \<and>
         pitch S' 1 (-1) (-1) = Inr S' \<and> volume S' 1 (-1) (-1) = Inr S' \<and>
         move 1024 768 S' (0, 0, 0) (-1) (-1) = Inr S') \<and>
   (\<exists>S'. loop (one_sound [PLAYING, PLAYING]) 0 = Inr (2, S') \<and>
         m_nLastPlayedSound S' = 0 \<and> m_nLastPlayedInstance S' = 2 \<and>
         pitch S' 1 (-1) (-1) = Inr S' \<and> volume S' 1 (-1) (-1) = Inr S' \<and>
         move 1024 768 S' (0, 0, 0) (-1) (-1) = Inr S') \<and>
   play (one_sound [PLAYING, PLAYING]) 5 = Inr (-1, one_sound [PLAYING, PLAYING]) \<and>
   loop (one_sound [PLAYING, PLAYING]) 5 = Inr (-1, one_sound [PLAYING, PLAYING])"
proof -
  let ?S = "one_sound [PLAYING, PLAYING]"
  have c: "created ?S 0"
    by (simp add: created_one_sound)
  have v: "0 < m_nCount ?S"
    by (simp add: one_sound_def)
  have a: "\<forall>i < length (m_pInstance ?S ! nat 0). playing_at ?S 0 i"
    using all_playing_one_sound [of 2] by (simp add: numeral_2_eq_2)
  have n: "m_nInstanceCount ?S ! nat 0 = 2" and m: "m_nCount ?S \<le> 5"
    by (simp_all add: one_sound_def)
  from last_played_recorded [of ?S 0 1 1 1024 768 "(0, 0, 0)"] c v a n
  have 1: "(\<exists>S'. play ?S 0 = Inr (2, S') \<and>
         m_nLastPlayedSound S' = 0 \<and> m_nLastPlayedInstance S' = 2 \<and>
         pitch S' 1 (-1) (-1) = Inr S' \<and> volume S' 1 (-1) (-1) = Inr S' \<and>
         move 1024 768 S' (0, 0, 0) (-1) (-1) = Inr S')"
    and 2: "(\<exists>S'. loop ?S 0 = Inr (2, S') \<and>
         m_nLastPlayedSound S' = 0 \<and> m_nLastPlayedInstance S' = 2 \<and>
         pitch S' 1 (-1) (-1) = Inr S' \<and> volume S' 1 (-1) (-1) = Inr S' \<and>
         move 1024 768 S' (0, 0, 0) (-1) (-1) = Inr S')"
    by metis+
  from last_played_recorded [of ?S 5] m
  have 3: "play ?S 5 = Inr (-1, ?S) \<and> loop ?S 5 = Inr (-1, ?S)"
    by blast
  have p: "playing_at ?S 0 0 \<and> playing_at ?S 0 1"
    by (simp add: one_sound_def playing_at_def GetState_def fresh_def)
  from c v p 1 2 3 show ?thesis by blast
qed

lemma bad_instance_ignored:
  assumes "0 \<le> index" and "index < int (length (m_nInstanceCount S))"
    and "instance \<noteq> - 1" and "instance < 0 \<or> m_nInstanceCount S ! nat index \<le> instance"
  shows "pitch S p instance index = Inr S \<and> volume S v instance index = Inr S \<and>
         move gw gh S ePos instance index = Inr S"
proof -
  from assms(1) have i: "index \<noteq> - 1" by simp
  have "on_instance f S instance index = Inr S" for f
    using assms(1,2,4) on_instance_negative on_instance_past_end by blast
  then show ?thesis
    using i assms(3) by (simp add: pitch_def volume_def move_def)
qed

text \<open>
  Claim C8. \<open>move\<close>, \<open>pitch\<close> and \<open>volume\<close> are to ignore a target whose sound index
  or instance index is out of range. They test the instance index only: with one
  sound loaded and the sound index 5, each reads \<open>m_nInstanceCount[5]\<close>, outside the
  array, where \<open>play\<close> and \<open>loop\<close> return at once. (An instance index out of range,
  with a sound index inside the arrays, is ignored: \<open>bad_instance_ignored\<close>.)
\<close>

theorem bad_sound_index_read_out_of_bounds:
  "pitch (one_sound [STOPPED]) 1 0 5 = Inl OutOfBounds \<and>
   volume (one_sound [STOPPED]) 1 0 5 = Inl OutOfBounds \<and>
   move 1024 768 (one_sound [STOPPED]) (0, 0, 0) 0 5 = Inl OutOfBounds"
  by (simp add: pitch_def volume_def move_def on_instance_def rd_def one_sound_def)

section \<open>Properties of the timer\<close>










lemma IncrementFrame_step_mode:
  "m_bStepMode T \<Longrightarrow> m_nFrameTime (IncrementFrame T) = 34"
  by (simp add: IncrementFrame_def)

lemma beginframe_step_mode:
  "m_bStepMode T \<Longrightarrow> beginframe t T = Inr T' \<Longrightarrow>
   m_nFrameTime T' = m_nFrameTime T \<and> m_bStepMode T'"
  by (auto simp add: beginframe_def int_sub_def bindE_def split: if_splits)

text \<open>
  Claim C4. In step mode \<open>IncrementFrame()\<close> is to set the frame time to a sixtieth of
  a second, which is 16 or 17 milliseconds. It sets 34. (\<open>beginframe()\<close> in step
  mode leaves the frame time alone: \<open>beginframe_step_mode\<close>.)
\<close>

theorem IncrementFrame_sets_34_ms:
  "m_bStepMode (ToggleStepMode (CTimer_new 0)) \<and>
   frametime (IncrementFrame (ToggleStepMode (CTimer_new 0))) = 34 \<and>
   \<not> sixtieth_of_second 34 \<and> sixtieth_of_second 16 \<and> sixtieth_of_second 17"
  by (simp add: ToggleStepMode_def CTimer_new_def IncrementFrame_def frametime_def
      sixtieth_of_second_def)

section \<open>Properties of single-precision floats\<close>

lemma ilog2_le: "1 \<le> n \<Longrightarrow> 2 ^ ilog2 n \<le> n"
proof (induction n rule: ilog2.induct)
  case (1 n)
  show ?case
  proof (cases "n < 2")
    case True
    with "1.prems" show ?thesis by (subst ilog2.simps) simp
  next
    case False
    then have "1 \<le> n div 2" by simp
    with "1.IH" False have "2 ^ ilog2 (n div 2) \<le> n div 2" by simp
    then have "2 * 2 ^ ilog2 (n div 2) \<le> n" by simp
    with False show ?thesis by (subst ilog2.simps) simp
  qed
qed

lemma rne_error: "\<bar>of_int (rne x) - x\<bar> \<le> 1 / 2"
proof -
  have "of_int \<lfloor>x\<rfloor> \<le> x" "x < of_int \<lfloor>x\<rfloor> + 1" by linarith+
  then show ?thesis
    by (auto simp add: rne_def Let_def)
qed

lemma rne_of_int: "rne (of_int k) = k"
  by (simp add: rne_def)

lemma ilog2_numeral: "ilog2 (numeral k) = (if numeral k < (2::nat) then 0 else ilog2 (numeral k div 2) + 1)"
  by (rule ilog2.simps)

lemma ilog2_0_1: "ilog2 0 = 0" "ilog2 1 = 0" "ilog2 (Suc 0) = 0"
  by (simp_all add: ilog2.simps)

lemma rne_frac:
  assumes "0 < b"
  shows "rne (of_int a / of_int b) = rne_frac a b"
proof -
  have f: "\<lfloor>(of_int a / of_int b :: rat)\<rfloor> = a div b"
    by (rule floor_divide_of_int_eq)
  have "(of_int a :: rat) = of_int (a div b) * of_int b + of_int (a mod b)"
    by (metis of_int_add of_int_mult div_mult_mod_eq)
  then have "(of_int a / of_int b :: rat) = of_int (a div b) + of_int (a mod b) / of_int b"
    using assms by (simp add: add_divide_distrib)
  then have d: "(of_int a / of_int b :: rat) - of_int (a div b) = of_int (a mod b) / of_int b"
    by simp
  have lt: "(of_int (a mod b) / of_int b < (1 / 2 :: rat)) = (2 * (a mod b) < b)"
    using assms by (simp add: field_simps) (metis (no_types) of_int_less_iff of_int_mult of_int_numeral mult.commute)
  have gt: "((1 / 2 :: rat) < of_int (a mod b) / of_int b) = (b < 2 * (a mod b))"
    using assms by (simp add: field_simps) (metis (no_types) of_int_less_iff of_int_mult of_int_numeral mult.commute)
  show ?thesis
    unfolding rne_def Let_def f d lt gt rne_frac_def by simp
qed

lemma float_round_frac:
  assumes "v = of_int a / of_int b" and "0 < b"
    and "nat (\<bar>a\<bar> * 2 ^ 149 div b) = n" and "max (ilog2 n) 23 = e"
    and "rne_frac (a * 2 ^ 149) (b * 2 ^ (e - 23)) = r"
    and "\<bar>of_int r * 2 ^ (e - 23) / 2 ^ 149 :: rat\<bar> < 2 ^ 128"
  shows "float_round v = Some (of_int r * 2 ^ (e - 23) / 2 ^ 149)"
proof -
  have "\<bar>v * 2 ^ 149\<bar> = of_int (\<bar>a\<bar> * 2 ^ 149) / of_int b"
    using assms(1,2) by (simp add: abs_mult)
  then have n: "nat \<lfloor>\<bar>v * 2 ^ 149\<bar>\<rfloor> = n"
    using assms(3) by (simp only: floor_divide_of_int_eq)
  have "v * 2 ^ 149 / 2 ^ (e - 23) = of_int (a * 2 ^ 149) / of_int (b * 2 ^ (e - 23))"
    using assms(1) by simp
  moreover have "0 < b * 2 ^ (e - 23)"
    using assms(2) by simp
  ultimately have r: "rne (v * 2 ^ 149 / 2 ^ (e - 23)) = r"
    using assms(5) by (simp only: rne_frac)
  show ?thesis
    unfolding float_round_def Let_def n assms(4) r using assms(6) by simp
qed

lemma ilog2_small: "n < 2 \<Longrightarrow> ilog2 n = 0"
  by (subst ilog2.simps) simp

lemma binade_le:
  assumes "2 ^ 23 \<le> \<bar>V :: rat\<bar>"
  shows "2 ^ max (ilog2 (nat \<lfloor>\<bar>V\<bar>\<rfloor>)) 23 \<le> \<bar>V\<bar>"
proof (cases "ilog2 (nat \<lfloor>\<bar>V\<bar>\<rfloor>) \<le> 23")
  case True
  then show ?thesis using assms by (simp add: max_def)
next
  case False
  let ?n = "nat \<lfloor>\<bar>V\<bar>\<rfloor>"
  from False have "1 \<le> ?n"
    using ilog2_small [of ?n] by (cases "?n < 2") auto
  then have "2 ^ ilog2 ?n \<le> ?n" by (rule ilog2_le)
  then have "(2 :: rat) ^ ilog2 ?n \<le> of_nat ?n"
    by (metis of_nat_le_iff of_nat_numeral of_nat_power)
  also have "\<dots> = of_int \<lfloor>\<bar>V\<bar>\<rfloor>" by simp
  also have "\<dots> \<le> \<bar>V\<bar>" by (rule of_int_floor_le)
  finally show ?thesis using False by (simp add: max_def)
qed

lemma float_round_rel_error:
  assumes "1 / 2 ^ 126 \<le> \<bar>v\<bar>" and "\<bar>v\<bar> \<le> 2 ^ 127"
  shows "\<exists>r. float_round v = Some r \<and> \<bar>r - v\<bar> \<le> \<bar>v\<bar> / 2 ^ 24"
proof -
  define K :: rat where "K = 2 ^ 149"
  define V where "V = v * K"
  define e where "e = max (ilog2 (nat \<lfloor>\<bar>V\<bar>\<rfloor>)) 23"
  define q :: rat where "q = 2 ^ (e - 23)"
  define R where "R = rne (V / q)"
  define r :: rat where "r = of_int R * q / K"
  have Kpos: "0 < K" by (simp add: K_def)
  have e23: "23 \<le> e" by (simp add: e_def)
  have qpos: "0 < q" by (simp add: q_def)
  have "(2 :: rat) ^ 23 = 1 / 2 ^ 126 * K" by (simp add: K_def)
  also have "\<dots> \<le> \<bar>v\<bar> * K"
    using assms(1) Kpos by (rule mult_right_mono [OF _ less_imp_le])
  finally have V23: "2 ^ 23 \<le> \<bar>V\<bar>" using Kpos by (simp add: V_def abs_mult)
  then have "2 ^ e \<le> \<bar>V\<bar>" unfolding e_def by (rule binade_le)
  moreover have "(2 :: rat) ^ e = q * 2 ^ 23"
  proof -
    have "(2 :: rat) ^ (e - 23 + 23) = 2 ^ (e - 23) * 2 ^ 23" by (rule power_add)
    with e23 show ?thesis by (simp add: q_def)
  qed
  ultimately have q_le: "q * 2 ^ 23 \<le> \<bar>V\<bar>" by simp
  have "\<bar>of_int R - V / q\<bar> \<le> 1 / 2" unfolding R_def by (rule rne_error)
  then have "\<bar>of_int R - V / q\<bar> * q \<le> 1 / 2 * q"
    using qpos by (simp add: mult_right_mono)
  moreover have "\<bar>of_int R - V / q\<bar> * q = \<bar>of_int R * q - V\<bar>"
  proof -
    have "\<bar>of_int R - V / q\<bar> * q = \<bar>(of_int R - V / q) * q\<bar>"
      using qpos by (simp add: abs_mult)
    also have "(of_int R - V / q) * q = of_int R * q - V"
      using qpos by (simp add: left_diff_distrib)
    finally show ?thesis .
  qed
  ultimately have err: "\<bar>of_int R * q - V\<bar> \<le> q / 2" by simp
  have "q / 2 \<le> \<bar>V\<bar> / 2 ^ 24" using q_le by simp
  with err have errV: "\<bar>of_int R * q - V\<bar> \<le> \<bar>V\<bar> / 2 ^ 24" by simp
  have "r - v = (of_int R * q - V) / K"
    using Kpos by (simp add: r_def V_def diff_divide_distrib)
  then have "\<bar>r - v\<bar> = \<bar>of_int R * q - V\<bar> / K"
    using Kpos by (simp add: abs_divide)
  also have "\<dots> \<le> \<bar>V\<bar> / 2 ^ 24 / K"
    using errV Kpos by (intro divide_right_mono) simp_all
  also have "\<dots> = \<bar>v\<bar> / 2 ^ 24"
    using Kpos by (simp add: V_def abs_mult)
  finally have rv: "\<bar>r - v\<bar> \<le> \<bar>v\<bar> / 2 ^ 24" .
  have "\<bar>r\<bar> \<le> \<bar>v\<bar> + \<bar>r - v\<bar>" by simp
  also have "\<dots> \<le> \<bar>v\<bar> + \<bar>v\<bar> / 2 ^ 24" using rv by simp
  also have "\<dots> \<le> 2 ^ 127 + 2 ^ 127 / 2 ^ 24"
    using assms(2) by (intro add_mono divide_right_mono) simp_all
  also have "\<dots> < 2 ^ 128" by simp
  finally have "\<not> 2 ^ 128 \<le> \<bar>r\<bar>" by simp
  then have "float_round v = Some r"
    unfolding float_round_def Let_def K_def [symmetric] V_def [symmetric] e_def [symmetric]
      q_def [symmetric] R_def [symmetric] r_def [symmetric] by simp
  with rv show ?thesis by blast
qed


lemma float_round_exact:
  assumes "v = of_int m * 2 ^ j / 2 ^ 149" and "\<bar>m\<bar> < 2 ^ 24" and "j \<le> 253"
  shows "float_round v = Some v"
proof -
  define K :: rat where "K = 2 ^ 149"
  define V :: rat where "V = of_int m * 2 ^ j"
  define e where "e = max (ilog2 (nat \<lfloor>\<bar>V\<bar>\<rfloor>)) 23"
  have Kpos: "0 < K" by (simp add: K_def)
  have vK: "v * K = V" using assms(1) by (simp add: K_def V_def)
  have absV: "\<bar>V\<bar> = of_int \<bar>m\<bar> * 2 ^ j" by (simp add: V_def abs_mult)
  have Vlt: "\<bar>V\<bar> < 2 ^ (24 + j) \<or> m = 0"
  proof (cases "m = 0")
    case False
    have "(of_int \<bar>m\<bar> :: rat) < 2 ^ 24"
      using assms(2) by (metis of_int_less_iff of_int_numeral of_int_power)
    then have "(of_int \<bar>m\<bar> :: rat) * 2 ^ j < 2 ^ 24 * 2 ^ j"
      by (simp add: mult_strict_right_mono)
    then show ?thesis by (simp add: absV power_add)
  qed simp
  have ej: "e - 23 \<le> j"
  proof (cases "ilog2 (nat \<lfloor>\<bar>V\<bar>\<rfloor>) \<le> 23")
    case True
    then show ?thesis by (simp add: e_def max_def)
  next
    case False
    let ?n = "nat \<lfloor>\<bar>V\<bar>\<rfloor>"
    from False have n1: "1 \<le> ?n"
      using ilog2_small [of ?n] by (cases "?n < 2") auto
    then have "m \<noteq> 0" by (auto simp add: V_def)
    with Vlt have lt: "\<bar>V\<bar> < 2 ^ (24 + j)" by simp
    from n1 have "2 ^ ilog2 ?n \<le> ?n" by (rule ilog2_le)
    then have "(2 :: rat) ^ ilog2 ?n \<le> of_nat ?n"
      by (metis of_nat_le_iff of_nat_numeral of_nat_power)
    also have "\<dots> = of_int \<lfloor>\<bar>V\<bar>\<rfloor>" by simp
    also have "\<dots> \<le> \<bar>V\<bar>" by (rule of_int_floor_le)
    also note lt
    finally have "ilog2 ?n < 24 + j" by simp
    with False show ?thesis by (simp add: e_def max_def)
  qed
  define q :: rat where "q = 2 ^ (e - 23)"
  have "(2 :: rat) ^ (j - (e - 23) + (e - 23)) = 2 ^ (j - (e - 23)) * 2 ^ (e - 23)"
    by (rule power_add)
  with ej have pj: "(2 :: rat) ^ j = 2 ^ (j - (e - 23)) * q" by (simp add: q_def)
  have Vq: "V = of_int (m * 2 ^ (j - (e - 23))) * q"
    by (simp add: V_def pj)
  have qn: "q \<noteq> 0" by (simp add: q_def)
  have "V / q = of_int (m * 2 ^ (j - (e - 23)))"
    unfolding Vq using qn by (rule nonzero_mult_div_cancel_right)
  then have R: "rne (V / q) = m * 2 ^ (j - (e - 23))"
    by (simp only: rne_of_int)
  have "of_int (m * 2 ^ (j - (e - 23))) * q = V"
    using Vq by simp
  moreover have "V / K = v"
    using Kpos by (simp add: vK [symmetric])
  ultimately have r: "of_int (rne (V / q)) * q / K = v"
    by (simp add: R)
  have "\<bar>v\<bar> < 2 ^ 128"
  proof -
    have "(2 :: rat) ^ j \<le> 2 ^ 253" using assms(3) by (intro power_increasing) simp_all
    moreover have "(of_int \<bar>m\<bar> :: rat) < 2 ^ 24"
      using assms(2) by (metis of_int_less_iff of_int_numeral of_int_power)
    ultimately have "(of_int \<bar>m\<bar> :: rat) * 2 ^ j < 2 ^ 24 * 2 ^ 253"
      by (intro mult_less_le_imp_less) simp_all
    then have "\<bar>V\<bar> < 2 ^ 128 * K" by (simp add: absV K_def)
    then have "\<bar>v\<bar> * K < 2 ^ 128 * K" using Kpos by (simp add: vK [symmetric] abs_mult)
    then show ?thesis using Kpos by simp
  qed
  then have "\<not> 2 ^ 128 \<le> \<bar>v\<bar>" by simp
  then show ?thesis
    unfolding float_round_def Let_def K_def [symmetric] vK e_def [symmetric] q_def [symmetric] r
    by simp
qed

lemma float_round_int:
  assumes "\<bar>n\<bar> \<le> 2 ^ 24"
  shows "float_round (of_int n) = Some (of_int n)"
proof (cases "\<bar>n\<bar> = 2 ^ 24")
  case True
  then have "n = 2 ^ 24 \<or> n = - (2 ^ 24)" by linarith
  then have "(of_int n :: rat) = of_int (n div 2) * 2 ^ 150 / 2 ^ 149" and "\<bar>n div 2\<bar> < 2 ^ 24"
    by auto
  then show ?thesis by (rule float_round_exact) simp
next
  case False
  with assms have "\<bar>n\<bar> < 2 ^ 24" by simp
  moreover have "(of_int n :: rat) = of_int n * 2 ^ 149 / 2 ^ 149" by simp
  ultimately show ?thesis by (intro float_round_exact [of _ n 149]) simp_all
qed

lemma float_round_half:
  assumes "\<bar>k\<bar> < 2 ^ 24"
  shows "float_round (of_int k / 2) = Some (of_int k / 2)"
proof -
  have "(of_int k / 2 :: rat) = of_int k * 2 ^ 148 / 2 ^ 149" by simp
  then show ?thesis using assms by (intro float_round_exact [of _ k 148]) simp_all
qed

text \<open>Integers up to \<open>2^24\<close> in size are singles, and so are their sums and differences.\<close>

lemma float_of_int_exact: "\<bar>n\<bar> \<le> 2 ^ 24 \<Longrightarrow> float_of_int n = Some (of_int n)"
  unfolding float_of_int_def by (rule float_round_int)

lemma float_sub_ints:
  assumes "\<bar>a\<bar> \<le> 2 ^ 24" and "\<bar>b\<bar> \<le> 2 ^ 24" and "\<bar>a - b\<bar> \<le> 2 ^ 24"
  shows "float_sub (float_of_int a) (float_of_int b) = Some (of_int (a - b))"
  using float_round_int [OF assms(3)]
  by (simp add: float_sub_def float_of_int_exact [OF assms(1)] float_of_int_exact [OF assms(2)])

lemma float_add_ints:
  assumes "\<bar>a\<bar> \<le> 2 ^ 24" and "\<bar>b\<bar> \<le> 2 ^ 24" and "\<bar>a + b\<bar> \<le> 2 ^ 24"
  shows "float_add (float_of_int a) (float_of_int b) = Some (of_int (a + b))"
  using float_round_int [OF assms(3)]
  by (simp add: float_add_def float_of_int_exact [OF assms(1)] float_of_int_exact [OF assms(2)])

text \<open>
  A quotient of two positive integers up to \<open>2^24\<close> is rounded to a single within
  the relative error \<open>2^-24\<close>.
\<close>

lemma float_round_quotient:
  assumes "1 \<le> a" and "a \<le> 2 ^ 24" and "1 \<le> b" and "b \<le> 2 ^ 24"
  shows "\<exists>r. float_round (of_int a / of_int b) = Some r \<and>
           \<bar>r - of_int a / of_int b\<bar> \<le> of_int a / of_int b / 2 ^ 24"
proof -
  let ?v = "of_int a / of_int b :: rat"
  have a1: "(1 :: rat) \<le> of_int a" and a2: "(of_int a :: rat) \<le> 2 ^ 24"
    and b1: "(1 :: rat) \<le> of_int b" and b2: "(of_int b :: rat) \<le> 2 ^ 24"
    using assms by (simp_all add: of_int_le_numeral_power_cancel_iff)
  have pos: "0 < ?v" using a1 b1 by simp
  have "1 / 2 ^ 24 \<le> 1 / (of_int b :: rat)"
    using b1 b2 by (simp add: field_simps)
  also have "\<dots> \<le> ?v" using a1 b1 by (simp add: field_simps)
  finally have "1 / 2 ^ 24 \<le> ?v" .
  moreover have "(1 :: rat) / 2 ^ 126 \<le> 1 / 2 ^ 24" by simp
  ultimately have "1 / 2 ^ 126 \<le> ?v" by (rule order_trans [rotated])
  then have lo: "1 / 2 ^ 126 \<le> \<bar>?v\<bar>" using pos by (simp only: abs_of_pos)
  have "?v \<le> of_int a / 1" using a1 b1 by (intro divide_left_mono) simp_all
  also have "\<dots> \<le> 2 ^ 24" using a2 by simp
  finally have "?v \<le> 2 ^ 24" .
  moreover have "(2 :: rat) ^ 24 \<le> 2 ^ 127" by simp
  ultimately have "?v \<le> 2 ^ 127" by (rule order_trans)
  then have hi: "\<bar>?v\<bar> \<le> 2 ^ 127" using pos by (simp only: abs_of_pos)
  from float_round_rel_error [OF lo hi] pos show ?thesis by (simp only: abs_of_pos)
qed

text \<open>The singles that the examples below need.\<close>

lemma float_round_pow2: "j \<le> 104 \<Longrightarrow> float_round (2 ^ j) = Some (2 ^ j)"
proof -
  assume "j \<le> 104"
  moreover have "(2 :: rat) ^ j = of_int 1 * 2 ^ (j + 149) / 2 ^ 149"
    by (simp add: power_add)
  ultimately show ?thesis by (intro float_round_exact [of _ 1 "j + 149"]) simp_all
qed

lemma float_round_45_572: "float_round (45 / 572) = Some (10559087 / 2 ^ 27)"
  using float_round_frac [of "45 / 572" 45 572 "45 * 2 ^ 149 div 572" 145 10559087]
  by (simp add: ilog2_numeral ilog2_0_1 rne_frac_def)

lemma float_round_66_572: "float_round (66 / 572) = Some (15486661 / 2 ^ 27)"
  using float_round_frac [of "66 / 572" 66 572 "66 * 2 ^ 149 div 572" 145 15486661]
  by (simp add: ilog2_numeral ilog2_0_1 rne_frac_def)

lemma float_round_48_132: "float_round (48 / 132) = Some (3050403 / 2 ^ 23)"
  using float_round_frac [of "48 / 132" 48 132 "48 * 2 ^ 149 div 132" 147 12201612]
  by (simp add: ilog2_numeral ilog2_0_1 rne_frac_def)

lemma float_round_85_132: "float_round (85 / 132) = Some (5401755 / 2 ^ 23)"
  using float_round_frac [of "85 / 132" 85 132 "85 * 2 ^ 149 div 132" 148 10803510]
  by (simp add: ilog2_numeral ilog2_0_1 rne_frac_def)

lemma float_round_size_t_32: "float_round 4294967291 = Some 4294967296"
  using float_round_frac [of 4294967291 4294967291 1 "4294967291 * 2 ^ 149" 180 16777216]
  by (simp add: ilog2_numeral ilog2_0_1 rne_frac_def)

lemma float_round_size_t_64: "float_round 18446744073709551611 = Some 18446744073709551616"
  using float_round_frac [of 18446744073709551611 18446744073709551611 1
      "18446744073709551611 * 2 ^ 149" 212 16777216]
  by (simp add: ilog2_numeral ilog2_0_1 rne_frac_def)

section \<open>Properties of the screen text\<close>

lemma glyph_cell_uppercase: "map glyph_cell uppercase = map (\<lambda>i. (int i, 48)) [0..<26]"
  by code_simp

lemma glyph_cell_lowercase: "map glyph_cell lowercase = map (\<lambda>i. (int i, 95)) [0..<26]"
  by code_simp

lemma glyph_cell_digits: "map glyph_cell digits = map (\<lambda>i. (int i, 0)) [0..<10]"
  by code_simp

lemma in_range_char:
  assumes "lo \<le> (of_char c :: int)" and "of_char c \<le> hi"
  shows "c \<in> char_of ` set [lo..hi]"
proof -
  have "(of_char c :: int) \<in> set [lo..hi]" using assms by simp
  then have "char_of (of_char c :: int) \<in> char_of ` set [lo..hi]" by (rule imageI)
  then show ?thesis by simp
qed

lemma upper_range_in_uppercase: "65 \<le> (of_char c :: int) \<Longrightarrow> (of_char c :: int) \<le> 90 \<Longrightarrow> c \<in> set uppercase"
  using in_range_char [of 65 c 90]
  by (simp add: uppercase_def upto_rec_numeral char_of_def)


lemma lower_range_in_lowercase: "97 \<le> (of_char c :: int) \<Longrightarrow> (of_char c :: int) \<le> 122 \<Longrightarrow> c \<in> set lowercase"
  using in_range_char [of 97 c 122]
  by (simp add: lowercase_def upto_rec_numeral char_of_def)

lemma digit_range_in_digits: "48 \<le> (of_char c :: int) \<Longrightarrow> (of_char c :: int) \<le> 57 \<Longrightarrow> c \<in> set digits"
  using in_range_char [of 48 c 57]
  by (simp add: digits_def upto_rec_numeral char_of_def)

lemma glyph_cell_other:
  assumes "c \<notin> set (uppercase @ lowercase @ digits)"
  shows "glyph_cell c = (10, 1)"
proof -
  have b: "(of_char c :: int) < 256"
    using pos_mod_bound [of 256 "of_char c :: int"] by simp
  from assms have u: "\<not> (65 \<le> (of_char c :: int) \<and> (of_char c :: int) \<le> 90)"
    and l: "\<not> (97 \<le> (of_char c :: int) \<and> (of_char c :: int) \<le> 122)"
    and d: "\<not> (48 \<le> (of_char c :: int) \<and> (of_char c :: int) \<le> 57)"
    using upper_range_in_uppercase lower_range_in_lowercase digit_range_in_digits by auto
  with b show ?thesis
    by (simp add: glyph_cell_def char_val_def)
qed

lemma drawtext_loop_glyphs:
  "length (drawtext_loop R s str) = length str \<and>
   (\<forall>k < length str.
      (sheet_xoffset (drawtext_loop R s str ! k), sheet_y (drawtext_loop R s str ! k)) =
        glyph_cell (str ! k)) \<and>
   (str \<noteq> [] \<longrightarrow> pos (hd (drawtext_loop R s str)) = s)"
proof (induction str arbitrary: s)
  case Nil
  then show ?case by simp
next
  case (Cons c cs)
  obtain xo y where cell: "glyph_cell c = (xo, y)" by (cases "glyph_cell c")
  obtain g s' where d: "DrawCharFromSpriteSheet R s y xo = (g, s')"
    by (cases "DrawCharFromSpriteSheet R s y xo")
  then have p: "pos g = s" and a: "sheet_xoffset g = xo" "sheet_y g = y"
    by (auto simp add: DrawCharFromSpriteSheet_def Let_def)
  let ?gs = "drawtext_loop R s' cs"
  have e: "drawtext_loop R s (c # cs) = g # ?gs"
    using cell d by simp
  from Cons.IH [of s'] have n: "length ?gs = length cs"
    and k: "\<forall>k < length cs.
              (sheet_xoffset (?gs ! k), sheet_y (?gs ! k)) = glyph_cell (cs ! k)"
    by simp_all
  have "\<forall>j < length (c # cs).
          (sheet_xoffset ((g # ?gs) ! j), sheet_y ((g # ?gs) ! j)) = glyph_cell ((c # cs) ! j)"
  proof (intro allI impI)
    fix j assume j: "j < length (c # cs)"
    show "(sheet_xoffset ((g # ?gs) ! j), sheet_y ((g # ?gs) ! j)) = glyph_cell ((c # cs) ! j)"
    proof (cases j)
      case 0
      with a cell show ?thesis by simp
    next
      case (Suc j')
      with j k show ?thesis by simp
    qed
  qed
  with n p show ?case unfolding e by simp
qed

lemma drawtext_start:
  "drawtext N R str =
     drawtext_loop R
       (float_div
          (float_round
             (of_int ((m_nScreenWidth R - int (length str) * m_nFrameWidth (m_pScreenText R))
                        mod 2 ^ N)))
          (Some 2),
        float_div (float_of_int (m_nScreenHeight R)) (Some 2), Some (- 1000)) str"
proof -
  have "(m_nScreenWidth R mod 2 ^ N -
          (int (length str) mod 2 ^ N * (m_nFrameWidth (m_pScreenText R) mod 2 ^ N)) mod 2 ^ N)
            mod 2 ^ N =
        (m_nScreenWidth R - int (length str) * m_nFrameWidth (m_pScreenText R)) mod 2 ^ N"
    by (simp add: mod_diff_eq mod_mult_eq)
  then show ?thesis
    by (simp add: drawtext_def to_size_t_def Let_def)
qed

lemma drawtext_glyphs:
  "length (drawtext N R str) = length str \<and>
   (\<forall>k < length str.
      (sheet_xoffset (drawtext N R str ! k), sheet_y (drawtext N R str ! k)) =
        glyph_cell (str ! k)) \<and>
   (str \<noteq> [] \<longrightarrow>
      pos (hd (drawtext N R str)) =
        (float_div
           (float_round
              (of_int ((m_nScreenWidth R - int (length str) * m_nFrameWidth (m_pScreenText R))
                         mod 2 ^ N)))
           (Some 2),
         float_div (float_of_int (m_nScreenHeight R)) (Some 2), Some (- 1000)))"
  unfolding drawtext_start by (rule drawtext_loop_glyphs)

lemma glyph_cell_in_class:
  "(\<forall>c \<in> set uppercase. glyph_cell c = (char_val c - char_val CHR ''A'', 48)) \<and>
   (\<forall>c \<in> set lowercase. glyph_cell c = (char_val c - char_val CHR ''a'', 95)) \<and>
   (\<forall>c \<in> set digits. glyph_cell c = (char_val c - char_val CHR ''0'', 0))"
  by (simp add: uppercase_def lowercase_def digits_def glyph_cell_def char_val_def)

text \<open>
  Claim C6. For each character of the string, \<open>drawtext\<close> takes the cell from the
  character's class: the \<open>i\<close>-th capital letter has column \<open>i = c - 'A'\<close> in the row
  at 48, the \<open>i\<close>-th small letter column \<open>i = c - 'a'\<close> in the row at 95, the digit
  \<open>i\<close> column \<open>i = c - '0'\<close> in the row at 0, and any other character, the space
  among them, column 10 at row 1.
\<close>

theorem glyph_cell_by_class:
  "map (\<lambda>g. (sheet_xoffset g, sheet_y g)) (drawtext N R str) = map glyph_cell str \<and>
   map glyph_cell uppercase = map (\<lambda>i. (int i, 48)) [0..<26] \<and>
   map glyph_cell lowercase = map (\<lambda>i. (int i, 95)) [0..<26] \<and>
   map glyph_cell digits = map (\<lambda>i. (int i, 0)) [0..<10] \<and>
   (\<forall>c \<in> set uppercase. glyph_cell c = (char_val c - char_val CHR ''A'', 48)) \<and>
   (\<forall>c \<in> set lowercase. glyph_cell c = (char_val c - char_val CHR ''a'', 95)) \<and>
   (\<forall>c \<in> set digits. glyph_cell c = (char_val c - char_val CHR ''0'', 0)) \<and>
   (c \<notin> set (uppercase @ lowercase @ digits) \<longrightarrow> glyph_cell c = (10, 1)) \<and>
   glyph_cell CHR '' '' = (10, 1)"
proof -
  have sp: "glyph_cell CHR '' '' = (10, 1)"
    by (simp add: glyph_cell_def char_val_def)
  from drawtext_glyphs [of N R str] have l: "length (drawtext N R str) = length str"
    and k: "\<forall>k < length str.
              (sheet_xoffset (drawtext N R str ! k), sheet_y (drawtext N R str ! k)) =
                glyph_cell (str ! k)"
    by blast+
  have dr: "map (\<lambda>g. (sheet_xoffset g, sheet_y g)) (drawtext N R str) = map glyph_cell str"
    using l k by (simp add: list_eq_iff_nth_eq)
  from glyph_cell_uppercase glyph_cell_lowercase glyph_cell_digits glyph_cell_in_class
    glyph_cell_other [of c] sp dr show ?thesis
    by blast
qed

theorem glyph_cell_by_class_witness:
  "CHR ''!'' \<notin> set (uppercase @ lowercase @ digits) \<and> glyph_cell CHR ''!'' = (10, 1) \<and>
   CHR ''C'' \<in> set uppercase \<and> glyph_cell CHR ''C'' = (2, 48) \<and>
   CHR ''z'' \<in> set lowercase \<and> glyph_cell CHR ''z'' = (25, 95) \<and>
   CHR ''7'' \<in> set digits \<and> glyph_cell CHR ''7'' = (7, 0) \<and>
   map (\<lambda>g. (sheet_xoffset g, sheet_y g)) (drawtext 32 text_renderer ''Hi 5'') =
     [(7, 48), (8, 95), (10, 1), (5, 0)]"
proof -
  have h1: "CHR ''!'' \<notin> set (uppercase @ lowercase @ digits)"
    by (simp add: uppercase_def lowercase_def digits_def)
  have h2: "CHR ''C'' \<in> set uppercase" "CHR ''z'' \<in> set lowercase" "CHR ''7'' \<in> set digits"
    by (simp_all add: uppercase_def lowercase_def digits_def)
  have e: "map glyph_cell ''Hi 5'' = [(7, 48), (8, 95), (10, 1), (5, 0)]"
    by (simp add: glyph_cell_def char_val_def)
  note th = glyph_cell_by_class [of 32 text_renderer "''Hi 5''" "CHR ''!''"]
  from th h1 have a: "glyph_cell CHR ''!'' = (10, 1)" by blast
  from th h2 have b: "glyph_cell CHR ''C'' = (char_val CHR ''C'' - char_val CHR ''A'', 48)"
    "glyph_cell CHR ''z'' = (char_val CHR ''z'' - char_val CHR ''a'', 95)"
    "glyph_cell CHR ''7'' = (char_val CHR ''7'' - char_val CHR ''0'', 0)"
    by blast+
  from th have m: "map (\<lambda>g. (sheet_xoffset g, sheet_y g)) (drawtext 32 text_renderer ''Hi 5'') =
      map glyph_cell ''Hi 5''"
    by blast
  from h1 h2 a b m [unfolded e] show ?thesis
    by (simp add: char_val_def)
qed

text \<open>The \<open>int\<close> \<open>x\<close> of a column in range, and the coordinates computed from it.\<close>

lemma sheet_x_in_range:
  assumes "0 \<le> c" and "0 \<le> m_nFrameWidth (m_pScreenText R)"
    and "1 + c * (m_nFrameWidth (m_pScreenText R) + 1) + m_nFrameWidth (m_pScreenText R) \<le> 2 ^ 24"
  shows "sheet_x R c = Inr (1 + c * (m_nFrameWidth (m_pScreenText R) + 1))"
    and "1 \<le> 1 + c * (m_nFrameWidth (m_pScreenText R) + 1)"
    and "c * (m_nFrameWidth (m_pScreenText R) + 1) \<le> 2 ^ 24"
proof -
  let ?F = "m_nFrameWidth (m_pScreenText R)"
  have p: "0 \<le> c * (?F + 1)" using assms(1,2) by simp
  with assms(2,3) have b: "?F \<le> 2 ^ 24" "c * (?F + 1) \<le> 2 ^ 24" by simp_all
  from p show "1 \<le> 1 + c * (?F + 1)" by simp
  from b show "c * (?F + 1) \<le> 2 ^ 24" by simp
  from assms(2) p b show "sheet_x R c = Inr (1 + c * (?F + 1))"
    by (simp add: sheet_x_def int_add_def int_mul_def in_int_def)
qed

lemma DrawCharFromSpriteSheet_columns:
  assumes "2 \<le> m_nWidth (m_pScreenText R)" and "m_nWidth (m_pScreenText R) \<le> 2 ^ 24"
    and "0 \<le> c" and "0 \<le> m_nFrameWidth (m_pScreenText R)"
    and "1 + c * (m_nFrameWidth (m_pScreenText R) + 1) + m_nFrameWidth (m_pScreenText R) \<le> 2 ^ 24"
  shows "u0 (fst (DrawCharFromSpriteSheet R s y c)) =
           Inr (float_round (of_int (1 + c * (m_nFrameWidth (m_pScreenText R) + 1)) /
                             of_int (m_nWidth (m_pScreenText R) - 1)))"
    and "u1 (fst (DrawCharFromSpriteSheet R s y c)) =
           Inr (float_round (of_int (1 + c * (m_nFrameWidth (m_pScreenText R) + 1) +
                                     m_nFrameWidth (m_pScreenText R)) /
                             of_int (m_nWidth (m_pScreenText R) - 1)))"
proof -
  let ?F = "m_nFrameWidth (m_pScreenText R)"
  let ?W = "m_nWidth (m_pScreenText R)"
  let ?x = "1 + c * (?F + 1)"
  note sx = sheet_x_in_range [OF assms(3,4,5)]
  have xb: "\<bar>?x\<bar> \<le> 2 ^ 24" using sx(2) assms(4,5) by simp
  have Fb: "\<bar>?F\<bar> \<le> 2 ^ 24" using sx(2) assms(4,5) by simp
  have xF: "\<bar>?x + ?F\<bar> \<le> 2 ^ 24" using sx(2) assms(4,5) by simp
  have w1: "float_sub (float_of_int ?W) (float_of_int 1) = Some (of_int (?W - 1))"
    using assms(1,2) by (intro float_sub_ints) simp_all
  have nz: "(of_int (?W - 1) :: rat) \<noteq> 0" using assms(1) by simp
  have fx: "float_of_int ?x = Some (of_int ?x)" using xb by (rule float_of_int_exact)
  have fa: "float_add (float_of_int ?x) (float_of_int ?F) = Some (of_int (?x + ?F))"
    using xb Fb xF by (rule float_add_ints)
  show "u0 (fst (DrawCharFromSpriteSheet R s y c)) =
           Inr (float_round (of_int ?x / of_int (?W - 1)))"
    using nz by (simp add: DrawCharFromSpriteSheet_def Let_def sx(1) w1 fx float_div_def
        del: of_int_diff of_int_add of_int_mult)
  show "u1 (fst (DrawCharFromSpriteSheet R s y c)) =
           Inr (float_round (of_int (?x + ?F) / of_int (?W - 1)))"
    using nz by (simp add: DrawCharFromSpriteSheet_def Let_def sx(1) w1 fa float_div_def
        del: of_int_diff of_int_add of_int_mult)
qed

text \<open>
  Claim C5, amended. Let the sheet be between 2 and \<open>2^24\<close> pixels wide, the
  column \<open>c\<close> and the frame width not negative, and
  \<open>x + frame width \<le> 2^24\<close> for the texture pixel
  \<open>x = 1 + c * (frame width + 1)\<close> of the glyph's left edge. Then, for any row,
  \<open>x\<close> is computed without overflow, and the texture coordinates \<open>u0\<close> and
  \<open>u1\<close> are the singles nearest to \<open>x\<close> and \<open>x + frame width\<close> divided by
  the sheet width less one. So \<open>u0\<close> is \<open>x / (sheet width - 1)\<close> within the
  relative error \<open>2^-24\<close>, and the width \<open>u1 - u0\<close> of the rectangle is
  \<open>frame width / (sheet width - 1)\<close> within
  \<open>(2 * x + frame width) / (sheet width - 1) / 2^24\<close>.
\<close>

theorem uv_rectangle_of_column:
  assumes "2 \<le> m_nWidth (m_pScreenText R)" and "m_nWidth (m_pScreenText R) \<le> 2 ^ 24"
    and "0 \<le> c" and "0 \<le> m_nFrameWidth (m_pScreenText R)"
    and "1 + c * (m_nFrameWidth (m_pScreenText R) + 1) + m_nFrameWidth (m_pScreenText R) \<le> 2 ^ 24"
  shows "\<exists>a b. u0 (fst (DrawCharFromSpriteSheet R s y c)) = Inr (Some a) \<and>
           u1 (fst (DrawCharFromSpriteSheet R s y c)) = Inr (Some b) \<and>
           float_round (of_int (1 + c * (m_nFrameWidth (m_pScreenText R) + 1)) /
                        of_int (m_nWidth (m_pScreenText R) - 1)) = Some a \<and>
           float_round (of_int (1 + c * (m_nFrameWidth (m_pScreenText R) + 1) +
                                m_nFrameWidth (m_pScreenText R)) /
                        of_int (m_nWidth (m_pScreenText R) - 1)) = Some b \<and>
           \<bar>a - of_int (1 + c * (m_nFrameWidth (m_pScreenText R) + 1)) /
                of_int (m_nWidth (m_pScreenText R) - 1)\<bar>
             \<le> of_int (1 + c * (m_nFrameWidth (m_pScreenText R) + 1)) /
                of_int (m_nWidth (m_pScreenText R) - 1) / 2 ^ 24 \<and>
           \<bar>(b - a) - of_int (m_nFrameWidth (m_pScreenText R)) /
                      of_int (m_nWidth (m_pScreenText R) - 1)\<bar>
             \<le> of_int (2 * (1 + c * (m_nFrameWidth (m_pScreenText R) + 1)) +
                        m_nFrameWidth (m_pScreenText R)) /
                of_int (m_nWidth (m_pScreenText R) - 1) / 2 ^ 24"
proof -
  let ?F = "m_nFrameWidth (m_pScreenText R)"
  let ?W = "m_nWidth (m_pScreenText R)"
  let ?x = "1 + c * (?F + 1)"
  let ?d = "of_int (?W - 1) :: rat"
  note sx = sheet_x_in_range [OF assms(3,4,5)]
  have w: "1 \<le> ?W - 1" "?W - 1 \<le> 2 ^ 24" using assms(1,2) by simp_all
  have x: "1 \<le> ?x" "?x \<le> 2 ^ 24" using sx(2) assms(4,5) by simp_all
  have xF: "1 \<le> ?x + ?F" "?x + ?F \<le> 2 ^ 24" using sx(2) assms(4,5) by simp_all
  from float_round_quotient [OF x w] obtain a where
    a: "float_round (of_int ?x / ?d) = Some a"
    and ae: "\<bar>a - of_int ?x / ?d\<bar> \<le> of_int ?x / ?d / 2 ^ 24"
    by blast
  from float_round_quotient [OF xF w] obtain b where
    b: "float_round (of_int (?x + ?F) / ?d) = Some b"
    and be: "\<bar>b - of_int (?x + ?F) / ?d\<bar> \<le> of_int (?x + ?F) / ?d / 2 ^ 24"
    by blast
  have "(b - a) - of_int ?F / ?d = (b - of_int (?x + ?F) / ?d) - (a - of_int ?x / ?d)"
    by (simp add: add_divide_distrib)
  then have "\<bar>(b - a) - of_int ?F / ?d\<bar>
      \<le> \<bar>b - of_int (?x + ?F) / ?d\<bar> + \<bar>a - of_int ?x / ?d\<bar>"
    by (simp only: abs_triangle_ineq4)
  also have "\<dots> \<le> of_int (?x + ?F) / ?d / 2 ^ 24 + of_int ?x / ?d / 2 ^ 24"
    using ae be by (rule add_mono [rotated])
  also have "\<dots> = of_int (2 * ?x + ?F) / ?d / 2 ^ 24"
    by (simp add: add_divide_distrib)
  finally have we: "\<bar>(b - a) - of_int ?F / ?d\<bar> \<le> of_int (2 * ?x + ?F) / ?d / 2 ^ 24" .
  note cols = DrawCharFromSpriteSheet_columns [OF assms, of s y]
  from cols(1) a have u0: "u0 (fst (DrawCharFromSpriteSheet R s y c)) = Inr (Some a)"
    by (simp only:)
  from cols(2) b have u1: "u1 (fst (DrawCharFromSpriteSheet R s y c)) = Inr (Some b)"
    by (simp only:)
  from u0 u1 a b ae we show ?thesis by blast
qed

theorem uv_rectangle_of_column_witness:
  "2 \<le> m_nWidth (m_pScreenText text_renderer) \<and>
   m_nWidth (m_pScreenText text_renderer) \<le> 2 ^ 24 \<and>
   (0 :: int) \<le> 2 \<and>
   0 \<le> m_nFrameWidth (m_pScreenText text_renderer) \<and>
   1 + 2 * (m_nFrameWidth (m_pScreenText text_renderer) + 1) +
     m_nFrameWidth (m_pScreenText text_renderer) \<le> 2 ^ 24 \<and>
   u0 (fst (DrawCharFromSpriteSheet text_renderer (Some 0, Some 0, Some 0) 48 2)) =
     Inr (Some (10559087 / 2 ^ 27)) \<and>
   u1 (fst (DrawCharFromSpriteSheet text_renderer (Some 0, Some 0, Some 0) 48 2)) =
     Inr (Some (15486661 / 2 ^ 27))"
proof -
  have h1: "2 \<le> m_nWidth (m_pScreenText text_renderer)"
    and h2: "m_nWidth (m_pScreenText text_renderer) \<le> 2 ^ 24"
    and h3: "(0 :: int) \<le> 2"
    and h4: "0 \<le> m_nFrameWidth (m_pScreenText text_renderer)"
    and h5: "1 + 2 * (m_nFrameWidth (m_pScreenText text_renderer) + 1) +
               m_nFrameWidth (m_pScreenText text_renderer) \<le> 2 ^ 24"
    by (simp_all add: text_renderer_def)
  from uv_rectangle_of_column [OF h1 h2 h3 h4 h5, of "(Some 0, Some 0, Some 0)" 48]
  obtain a b where
    u0: "u0 (fst (DrawCharFromSpriteSheet text_renderer (Some 0, Some 0, Some 0) 48 2)) =
           Inr (Some a)"
    and u1: "u1 (fst (DrawCharFromSpriteSheet text_renderer (Some 0, Some 0, Some 0) 48 2)) =
           Inr (Some b)"
    and a: "float_round (of_int (1 + 2 * (m_nFrameWidth (m_pScreenText text_renderer) + 1)) /
                        of_int (m_nWidth (m_pScreenText text_renderer) - 1)) = Some a"
    and b: "float_round (of_int (1 + 2 * (m_nFrameWidth (m_pScreenText text_renderer) + 1) +
                                m_nFrameWidth (m_pScreenText text_renderer)) /
                        of_int (m_nWidth (m_pScreenText text_renderer) - 1)) = Some b"
    by blast
  from a have "float_round (45 / 572) = Some a" by (simp add: text_renderer_def)
  then have a': "a = 10559087 / 2 ^ 27" by (simp only: float_round_45_572 option.inject)
  from b have "float_round (66 / 572) = Some b" by (simp add: text_renderer_def)
  then have b': "b = 15486661 / 2 ^ 27" by (simp only: float_round_66_572 option.inject)
  from h1 h2 h3 h4 h5 u0 u1 show ?thesis unfolding a' b' by blast
qed

text \<open>
  Claim C5 as stated, with the width equal to the frame width divided by the sheet
  width, fails: on the 573 pixel sheet with 21 pixel frames, column 2 gets the
  coordinates \<open>10559087 / 2^27\<close> and \<open>15486661 / 2^27\<close>, the singles nearest to
  45/572 and 66/572. They are more than 1/20000 further apart than 21/573, where
  rounding accounts for less than \<open>111 / 572 / 2^24\<close>.
\<close>

theorem uv_width_counterexample:
  "DrawCharFromSpriteSheet text_renderer (Some 0, Some 0, Some 0) 48 2 =
     (\<lparr>pos = (Some 0, Some 0, Some 0), sheet_y = 48, sheet_xoffset = 2,
       u0 = Inr (Some (10559087 / 2 ^ 27)), u1 = Inr (Some (15486661 / 2 ^ 27)),
       v0 = Some (3050403 / 2 ^ 23), v1 = Some (5401755 / 2 ^ 23)\<rparr>,
      (Some 21, Some 0, Some 0)) \<and>
   (1 / 20000 :: rat) <
     \<bar>(15486661 / 2 ^ 27 - 10559087 / 2 ^ 27) -
      of_int (m_nFrameWidth (m_pScreenText text_renderer)) /
      of_int (m_nWidth (m_pScreenText text_renderer))\<bar> \<and>
   (of_int (2 * (1 + 2 * (m_nFrameWidth (m_pScreenText text_renderer) + 1)) +
            m_nFrameWidth (m_pScreenText text_renderer)) /
    of_int (m_nWidth (m_pScreenText text_renderer) - 1) / 2 ^ 24 :: rat) < 1 / 20000"
proof -
  have i: "float_round 573 = Some 573" "float_round 133 = Some 133"
    "float_round 21 = Some 21" "float_round 37 = Some 37" "float_round 1 = Some 1"
    "float_round 45 = Some 45" "float_round 48 = Some 48" "float_round 572 = Some 572"
    "float_round 132 = Some 132" "float_round 66 = Some 66" "float_round 85 = Some 85"
    using float_round_int [of 573] float_round_int [of 133] float_round_int [of 21]
      float_round_int [of 37] float_round_int [of 1] float_round_int [of 45]
      float_round_int [of 48] float_round_int [of 572] float_round_int [of 132]
      float_round_int [of 66] float_round_int [of 85]
    by simp_all
  have x: "sheet_x text_renderer 2 = Inr 45"
    by (simp add: sheet_x_def text_renderer_def int_add_def int_mul_def in_int_def)
  have "DrawCharFromSpriteSheet text_renderer (Some 0, Some 0, Some 0) 48 2 =
     (\<lparr>pos = (Some 0, Some 0, Some 0), sheet_y = 48, sheet_xoffset = 2,
       u0 = Inr (Some (10559087 / 2 ^ 27)), u1 = Inr (Some (15486661 / 2 ^ 27)),
       v0 = Some (3050403 / 2 ^ 23), v1 = Some (5401755 / 2 ^ 23)\<rparr>,
      (Some 21, Some 0, Some 0))"
    unfolding DrawCharFromSpriteSheet_def Let_def x
    using float_round_45_572 float_round_66_572 float_round_48_132 float_round_85_132
    by (simp add: text_renderer_def float_of_int_def float_add_def float_sub_def float_div_def i)
  moreover have "(1 / 20000 :: rat) <
     \<bar>(15486661 / 2 ^ 27 - 10559087 / 2 ^ 27) -
      of_int (m_nFrameWidth (m_pScreenText text_renderer)) /
      of_int (m_nWidth (m_pScreenText text_renderer))\<bar>"
    by (simp add: text_renderer_def)
  moreover have "(of_int (2 * (1 + 2 * (m_nFrameWidth (m_pScreenText text_renderer) + 1)) +
            m_nFrameWidth (m_pScreenText text_renderer)) /
    of_int (m_nWidth (m_pScreenText text_renderer) - 1) / 2 ^ 24 :: rat) < 1 / 20000"
    by (simp add: text_renderer_def)
  ultimately show ?thesis by blast
qed

text \<open>
  A string that fits on the screen, with screen width plus text width below
  \<open>2^24\<close>: every position is a multiple of 1/2 that is a single, so no sum is
  rounded.
\<close>

lemma drawtext_loop_positions:
  assumes "0 \<le> d" and "0 \<le> m_nFrameWidth (m_pScreenText R)"
    and "d + 2 * int (length str) * m_nFrameWidth (m_pScreenText R) < 2 ^ 24"
  shows "\<forall>k < length str.
           pos (drawtext_loop R (Some (of_int d / 2), sy, sz) str ! k) =
             (Some (of_int d / 2 + of_nat k * of_int (m_nFrameWidth (m_pScreenText R))), sy, sz)"
  using assms
proof (induction str arbitrary: d)
  case Nil
  then show ?case by simp
next
  case (Cons c cs)
  let ?F = "m_nFrameWidth (m_pScreenText R)"
  obtain xo y where cell: "glyph_cell c = (xo, y)" by (cases "glyph_cell c")
  have "0 \<le> int (length cs) * ?F" using Cons.prems(2) by simp
  then have le: "d + 2 * ?F \<le> d + 2 * int (length (c # cs)) * ?F"
    by (simp add: algebra_simps)
  with Cons.prems have F: "\<bar>?F\<bar> \<le> 2 ^ 24" and d2: "\<bar>d + 2 * ?F\<bar> < 2 ^ 24" by linarith+
  have "float_round (of_int d / 2 + of_int ?F) = float_round (of_int (d + 2 * ?F) / 2)"
    by (simp add: add_divide_distrib)
  also have "\<dots> = Some (of_int (d + 2 * ?F) / 2)" by (rule float_round_half [OF d2])
  finally have step: "float_add (Some (of_int d / 2)) (float_of_int ?F) =
      Some (of_int (d + 2 * ?F) / 2)"
    by (simp add: float_add_def float_of_int_exact [OF F])
  define g where "g = fst (DrawCharFromSpriteSheet R (Some (of_int d / 2), sy, sz) y xo)"
  have d: "DrawCharFromSpriteSheet R (Some (of_int d / 2), sy, sz) y xo =
      (g, (Some (of_int (d + 2 * ?F) / 2), sy, sz))"
    and p: "pos g = (Some (of_int d / 2), sy, sz)"
    using step by (simp_all add: g_def DrawCharFromSpriteSheet_def Let_def)
  have e: "drawtext_loop R (Some (of_int d / 2), sy, sz) (c # cs) =
      g # drawtext_loop R (Some (of_int (d + 2 * ?F) / 2), sy, sz) cs"
    using cell d by simp
  have ih: "\<forall>k < length cs.
      pos (drawtext_loop R (Some (of_int (d + 2 * ?F) / 2), sy, sz) cs ! k) =
        (Some (of_int (d + 2 * ?F) / 2 + of_nat k * of_int ?F), sy, sz)"
    using Cons.prems by (intro Cons.IH) (simp_all add: algebra_simps)
  show ?case
  proof (intro allI impI)
    fix k assume k: "k < length (c # cs)"
    show "pos (drawtext_loop R (Some (of_int d / 2), sy, sz) (c # cs) ! k) =
        (Some (of_int d / 2 + of_nat k * of_int ?F), sy, sz)"
    proof (cases k)
      case 0
      then show ?thesis using p unfolding e by simp
    next
      case (Suc j)
      with k have "j < length cs" by simp
      with ih have "pos (drawtext_loop R (Some (of_int (d + 2 * ?F) / 2), sy, sz) cs ! j) =
        (Some (of_int (d + 2 * ?F) / 2 + of_nat j * of_int ?F), sy, sz)" by blast
      then show ?thesis using Suc unfolding e
        by (simp add: add_divide_distrib algebra_simps)
    qed
  qed
qed

lemma drawtext_centred_when_it_fits:
  assumes "0 \<le> m_nFrameWidth (m_pScreenText R)"
    and "int (length str) * m_nFrameWidth (m_pScreenText R) \<le> m_nScreenWidth R"
    and "m_nScreenWidth R - int (length str) * m_nFrameWidth (m_pScreenText R) < 2 ^ N"
    and "m_nScreenWidth R + int (length str) * m_nFrameWidth (m_pScreenText R) < 2 ^ 24"
  shows "length (drawtext N R str) = length str \<and>
         (\<forall>k < length str.
            fst (pos (drawtext N R str ! k)) =
              Some (of_int (m_nScreenWidth R -
                            int (length str) * m_nFrameWidth (m_pScreenText R)) / 2 +
                    of_nat k * of_int (m_nFrameWidth (m_pScreenText R))))"
proof -
  let ?F = "m_nFrameWidth (m_pScreenText R)"
  define d where "d = m_nScreenWidth R - int (length str) * ?F"
  have d0: "0 \<le> d" and dN: "d < 2 ^ N" and dL: "d + 2 * int (length str) * ?F < 2 ^ 24"
    using assms by (simp_all add: d_def)
  have "0 \<le> int (length str) * ?F" using assms(1) by simp
  with d0 dL have d24: "\<bar>d\<bar> < 2 ^ 24" by linarith
  have m: "d mod 2 ^ N = d" using d0 dN by simp
  have "float_div (float_round (of_int d)) (Some 2) = Some (of_int d / 2)"
    using d24 float_round_int [of d] float_round_half [OF d24] by (simp add: float_div_def)
  then have start: "drawtext N R str =
      drawtext_loop R (Some (of_int d / 2), float_div (float_of_int (m_nScreenHeight R)) (Some 2),
        Some (- 1000)) str"
    unfolding drawtext_start d_def [symmetric] m by simp
  have "length (drawtext N R str) = length str"
    using drawtext_glyphs [of N R str] by blast
  moreover have "\<forall>k < length str. fst (pos (drawtext N R str ! k)) =
      Some (of_int d / 2 + of_nat k * of_int ?F)"
    unfolding start using drawtext_loop_positions [OF d0 assms(1) dL] by simp
  ultimately show ?thesis unfolding d_def by blast
qed

text \<open>
  Claim C7. The first glyph is to be at \<open>(screen width - L * frame width) / 2\<close>. For a
  string wider than the screen the difference is negative, and \<open>drawtext\<close> computes it
  in \<open>size_t\<close>: 49 characters of 21 pixels on a screen of 1024 give \<open>2^32 - 5\<close>, as a
  \<open>float\<close> \<open>2^32\<close>, and start at \<open>2^31\<close> (at \<open>2^63\<close> where \<open>size_t\<close> has 64
  bits), not at \<open>-5/2\<close>. (A string that fits is placed as claimed:
  \<open>drawtext_centred_when_it_fits\<close>.)
\<close>

theorem drawtext_wide_string_not_centred:
  "fst (pos (hd (drawtext 32 text_renderer (replicate 49 CHR ''A'')))) = Some 2147483648 \<and>
   fst (pos (hd (drawtext 64 text_renderer (replicate 49 CHR ''A'')))) =
     Some 9223372036854775808 \<and>
   (of_int (m_nScreenWidth text_renderer -
            int (length (replicate 49 CHR ''A'')) * m_nFrameWidth (m_pScreenText text_renderer))
      / 2 :: rat) = - 5 / 2"
proof -
  have first: "fst (pos (hd (drawtext N text_renderer (replicate 49 CHR ''A'')))) =
      float_div (float_round (of_int ((- 5) mod 2 ^ N))) (Some 2)" for N
  proof -
    have "replicate 49 CHR ''A'' \<noteq> []" by simp
    with drawtext_glyphs [of N text_renderer "replicate 49 CHR ''A''"]
    have "pos (hd (drawtext N text_renderer (replicate 49 CHR ''A''))) =
        (float_div
           (float_round
              (of_int ((m_nScreenWidth text_renderer -
                        int (length (replicate 49 CHR ''A'')) *
                        m_nFrameWidth (m_pScreenText text_renderer)) mod 2 ^ N)))
           (Some 2),
         float_div (float_of_int (m_nScreenHeight text_renderer)) (Some 2), Some (- 1000))"
      by blast
    then show ?thesis by (simp add: text_renderer_def)
  qed
  have p31: "float_round 2147483648 = Some 2147483648"
    using float_round_pow2 [of 31] by simp
  have p63: "float_round 9223372036854775808 = Some 9223372036854775808"
    using float_round_pow2 [of 63] by simp
  have "fst (pos (hd (drawtext 32 text_renderer (replicate 49 CHR ''A'')))) = Some 2147483648"
    unfolding first by (simp add: float_round_size_t_32 float_div_def p31)
  moreover have "fst (pos (hd (drawtext 64 text_renderer (replicate 49 CHR ''A'')))) =
     Some 9223372036854775808"
    unfolding first by (simp add: float_round_size_t_64 float_div_def p63)
  moreover have "(of_int (m_nScreenWidth text_renderer -
            int (length (replicate 49 CHR ''A'')) * m_nFrameWidth (m_pScreenText text_renderer))
      / 2 :: rat) = - 5 / 2"
    by (simp add: text_renderer_def)
  ultimately show ?thesis by blast
qed

section \<open>Properties of the sprite manager\<close>

lemma find_sprite_absent: "map_of elems name = None \<Longrightarrow> find_sprite name elems = None"
  by (induction elems) (auto split: if_splits)

lemma find_sprite_present: "map_of elems name = Some f \<Longrightarrow> find_sprite name elems = Some (name, f)"
  by (induction elems) (auto split: if_splits)

lemma Load_not_found:
  assumes "file_of X name = None"
  shows "Load dev X M sprite name = ABORT_cannot_load name"
proof (cases X)
  case None
  then show ?thesis by (simp add: Load_def)
next
  case (Some Y)
  show ?thesis
  proof (cases Y)
    case None
    with Some show ?thesis by (simp add: Load_def)
  next
    case inner: (Some elems)
    with Some assms have "map_of elems name = None" by (simp add: file_of_def)
    then have "find_sprite name elems = None" by (rule find_sprite_absent)
    with Some inner show ?thesis by (simp add: Load_def)
  qed
qed

lemma Load_found:
  assumes "file_of X name = Some f" and "0 \<le> sprite" and "sprite < int (length (m_pSprite M))"
    and "length f < MAX_PATH"
  shows "Load dev X M sprite name =
         (if \<not> texture_created (dev f) then Inl NullPointer
          else if buffer_created (dev f) then
            Inr (M\<lparr>m_pSprite := (m_pSprite M)[nat sprite := Some \<lparr>file_name = f\<rparr>],
                   m_pBuffer := f\<rparr>)
          else ABORT_cannot_load name)"
proof -
  from assms(1) obtain elems where X: "X = Some (Some elems)" and m: "map_of elems name = Some f"
    by (auto simp add: file_of_def split: option.splits)
  from m have "find_sprite name elems = Some (name, f)" by (rule find_sprite_present)
  with X assms(2-4) show ?thesis
    by (simp add: Load_def LoadFile_def C3DSprite_Load_def wr_def)
qed

text \<open>
  What holds of \<open>Load(sprite, name)\<close> on a slot of the manager: it aborts with the
  diagnostic when the settings hold no sprite of that name, and when they do and
  \<open>C3DSprite::Load\<close> returns false for its file; when that returns true, \<open>Load\<close>
  returns with the sprite in the slot.
\<close>

lemma Load_aborts_unless_found_and_loaded:
  assumes "0 \<le> sprite" and "sprite < int (length (m_pSprite M))"
  shows "(file_of X name = None \<longrightarrow>
            Load dev X M sprite name =
              Inl (Aborted (''Cannot load sprite '' @ [CHR 0x22] @ name @ [CHR 0x22] @ ''.'' @
                            [CHR 0x0A]))) \<and>
         (\<forall>f. file_of X name = Some f \<and> length f < MAX_PATH \<and>
              C3DSprite_Load dev f = Inr False \<longrightarrow>
            Load dev X M sprite name =
              Inl (Aborted (''Cannot load sprite '' @ [CHR 0x22] @ name @ [CHR 0x22] @ ''.'' @
                            [CHR 0x0A]))) \<and>
         (\<forall>f. file_of X name = Some f \<and> length f < MAX_PATH \<and>
              C3DSprite_Load dev f = Inr True \<longrightarrow>
            Load dev X M sprite name =
              Inr (M\<lparr>m_pSprite := (m_pSprite M)[nat sprite := Some \<lparr>file_name = f\<rparr>],
                     m_pBuffer := f\<rparr>))"
  using Load_not_found [of X name dev M sprite] Load_found [OF _ assms, of X name _ dev]
  by (auto simp add: ABORT_cannot_load_def C3DSprite_Load_def split: if_splits)

lemma Load_examples:
  "Load example_device example_settings CSpriteManager_new 3 ''ghost'' =
     Inl (Aborted (''Cannot load sprite '' @ [CHR 0x22] @ ''ghost'' @ [CHR 0x22] @ ''.'' @
                   [CHR 0x0A])) \<and>
   Load example_device example_settings CSpriteManager_new 3 ''lamp'' =
     Inl (Aborted (''Cannot load sprite '' @ [CHR 0x22] @ ''lamp'' @ [CHR 0x22] @ ''.'' @
                   [CHR 0x0A])) \<and>
   Load example_device example_settings CSpriteManager_new 3 ''ball'' =
     Inr (CSpriteManager_new
            \<lparr>m_pSprite := (m_pSprite CSpriteManager_new)[nat 3 := Some \<lparr>file_name = ''ball.png''\<rparr>],
             m_pBuffer := ''ball.png''\<rparr>)"
proof -
  have h1: "(0::int) \<le> 3" and h2: "3 < int (length (m_pSprite CSpriteManager_new))"
    by (simp_all add: CSpriteManager_new_def NUM_SPRITES_def)
  have g: "file_of example_settings ''ghost'' = None"
    by (simp add: file_of_def example_settings_def)
  have c: "file_of example_settings ''lamp'' = Some ''lamp.png'' \<and>
           length ''lamp.png'' < MAX_PATH \<and> C3DSprite_Load example_device ''lamp.png'' = Inr False"
    by (simp add: file_of_def example_settings_def MAX_PATH_def example_device_def
        C3DSprite_Load_def)
  have b: "file_of example_settings ''ball'' = Some ''ball.png'' \<and>
           length ''ball.png'' < MAX_PATH \<and> C3DSprite_Load example_device ''ball.png'' = Inr True"
    by (simp add: file_of_def example_settings_def MAX_PATH_def example_device_def
        C3DSprite_Load_def)
  from Load_aborts_unless_found_and_loaded [OF h1 h2, of example_settings "''ghost''" example_device] g
  have 1: "Load example_device example_settings CSpriteManager_new 3 ''ghost'' =
     Inl (Aborted (''Cannot load sprite '' @ [CHR 0x22] @ ''ghost'' @ [CHR 0x22] @ ''.'' @
                   [CHR 0x0A]))"
    by blast
  from Load_aborts_unless_found_and_loaded [OF h1 h2, of example_settings "''lamp''" example_device] c
  have 2: "Load example_device example_settings CSpriteManager_new 3 ''lamp'' =
     Inl (Aborted (''Cannot load sprite '' @ [CHR 0x22] @ ''lamp'' @ [CHR 0x22] @ ''.'' @
                   [CHR 0x0A]))"
    by blast
  from Load_aborts_unless_found_and_loaded [OF h1 h2, of example_settings "''ball''" example_device] b
  have 3: "Load example_device example_settings CSpriteManager_new 3 ''ball'' =
     Inr (CSpriteManager_new
            \<lparr>m_pSprite := (m_pSprite CSpriteManager_new)[nat 3 := Some \<lparr>file_name = ''ball.png''\<rparr>],
             m_pBuffer := ''ball.png''\<rparr>)"
    by blast
  from 1 2 3 show ?thesis by blast
qed

text \<open>
  Claim C9. \<open>Load(sprite, name)\<close> is to abort with the diagnostic
  \<open>Cannot load sprite "name".\<close> whenever the name is not in the settings or the file
  does not load. When the file cannot be read, the texture is not created,
  \<open>C3DSprite::Load\<close> calls through the null \<open>m_pTexture\<close>, and \<open>Load\<close> never
  reaches its test of \<open>success\<close>: for the sprite \<open>crate\<close> of the settings, whose
  file cannot be read, the outcome is the null pointer call, not the diagnostic.
\<close>

theorem Load_unreadable_file_no_diagnostic:
  "file_of example_settings ''crate'' = Some ''crate.png'' \<and>
   texture_created (example_device ''crate.png'') = False \<and>
   Load example_device example_settings CSpriteManager_new 3 ''crate'' = Inl NullPointer \<and>
   Load example_device example_settings CSpriteManager_new 3 ''crate'' \<noteq>
     Inl (Aborted (''Cannot load sprite '' @ [CHR 0x22] @ ''crate'' @ [CHR 0x22] @ ''.'' @
                   [CHR 0x0A]))"
proof -
  have f: "file_of example_settings ''crate'' = Some ''crate.png''"
    by (simp add: file_of_def example_settings_def)
  have t: "texture_created (example_device ''crate.png'') = False"
    by (simp add: example_device_def)
  have l: "Load example_device example_settings CSpriteManager_new 3 ''crate'' = Inl NullPointer"
    using Load_found [OF f, of 3 CSpriteManager_new example_device] t
    by (simp add: CSpriteManager_new_def NUM_SPRITES_def MAX_PATH_def)
  from f t l show ?thesis by simp
qed

end
